theory Spec2Isabelle
  imports Complex_Main "HOL-Library.Multiset"
begin

section \<open>Data model\<close>

text \<open>
  The program is the class \<open>KPCA_Recon_Error\<close> of \<open>recon_error_kpca.py\<close>. Its numbers are
  NumPy float64 values. The matrices, eigenvalues and scores are modelled as reals, so
  their rounding, NaN and infinities are outside the model (division by zero, which NumPy
  answers with \<open>inf\<close> or \<open>nan\<close>, is HOL's \<open>x / 0 = 0\<close>; no theorem below states the value of
  such a quotient). The contamination and its product with the number of rows are float64
  values with their rounding, infinities and NaN: the program takes the ceiling of that
  product, and a ceiling is not continuous, so there the rounding decides how many rows
  are flagged. A two-dimensional array is a list of rows; NumPy arrays are rectangular,
  so every row of a matrix has the same length. Every exception of the Python program is
  a value of type \<open>error\<close>.
\<close>

datatype error = ValueError | AssertionError | OverflowError | LibraryError

type_synonym matrix = "real list list"

definition shape :: "matrix \<Rightarrow> nat \<times> nat" where
  "shape M = (length M, (case M of [] \<Rightarrow> 0 | r # _ \<Rightarrow> length r))"

text \<open>
  A float64 value: a finite one is the real number it stands for (the two zeros are not
  told apart), the others are the two infinities and NaN.
\<close>

datatype float64 = Finite real | PosInf | NegInf | NaN

text \<open>
  What the program reads from a fitted \<open>KernelPCA\<close> transformer: the eigenvalues
  \<open>lambdas_\<close> (the field \<open>lambdas\<close>), and the matrix \<open>inverse_transform(fit_transform(X))\<close>.
\<close>

record transformer =
  lambdas :: "real list"
  inverse_transformed :: matrix

text \<open>
  The routines of scikit-learn and NumPy that the program calls are not code of this
  repository. They are parameters of the model: \<open>StandardScaler().fit_transform\<close>, the
  fit of \<open>KernelPCA(n_components, kernel, gamma, fit_inverse_transform=True,
  random_state)\<close> on a matrix (\<open>None\<close> for \<open>n_components=None\<close>), and \<open>np.argsort\<close>
  with its default sorting kind. Each is a function of its arguments, so a fit with a
  fixed \<open>random_state\<close> is taken to be reproducible. An exception raised inside
  scikit-learn is \<open>Inl\<close>.
\<close>

record library =
  StandardScaler_fit_transform :: "matrix \<Rightarrow> error + matrix"
  KernelPCA :: "nat option \<Rightarrow> string \<Rightarrow> real option \<Rightarrow> int \<Rightarrow> matrix \<Rightarrow> error + transformer"
  argsort :: "real list \<Rightarrow> nat list"

text \<open>The object after \<open>__init__\<close>: \<open>matrix\<close> is the standardized matrix.\<close>

record KPCA_Recon_Error =
  matrix :: matrix
  contamination :: float64
  kernel :: string
  gamma :: "real option"
  random_state :: int

abbreviation n_samples :: "KPCA_Recon_Error \<Rightarrow> nat" where
  "n_samples self \<equiv> length (matrix self)"

abbreviation n_features :: "KPCA_Recon_Error \<Rightarrow> nat" where
  "n_features self \<equiv> snd (shape (matrix self))"

definition init ::
  "library \<Rightarrow> matrix \<Rightarrow> float64 \<Rightarrow> string \<Rightarrow> real option \<Rightarrow> int \<Rightarrow> error + KPCA_Recon_Error" where
  "init lib m c k g rs =
     (case StandardScaler_fit_transform lib m of
        Inl e \<Rightarrow> Inl e
      | Inr M \<Rightarrow> Inr \<lparr>matrix = M, contamination = c, kernel = k, gamma = g, random_state = rs\<rparr>)"

section \<open>Spectrum: \<open>get_ev_ratio\<close>\<close>

fun cumsum_from :: "real \<Rightarrow> real list \<Rightarrow> real list" where
  "cumsum_from acc [] = []"
| "cumsum_from acc (x # xs) = (acc + x) # cumsum_from (acc + x) xs"

definition cumsum :: "real list \<Rightarrow> real list" where
  "cumsum xs = cumsum_from 0 xs"

definition get_ev_ratio :: "library \<Rightarrow> KPCA_Recon_Error \<Rightarrow> error + real list" where
  "get_ev_ratio lib self =
     (case KernelPCA lib None (kernel self) (gamma self) (random_state self) (matrix self) of
        Inl e \<Rightarrow> Inl e
      | Inr t \<Rightarrow> Inr (map (\<lambda>c. c / sum_list (lambdas t)) (cumsum (lambdas t))))"

section \<open>Reconstruction sweep: \<open>reconstruct_matrix\<close>\<close>

definition reconstruct :: "library \<Rightarrow> KPCA_Recon_Error \<Rightarrow> nat \<Rightarrow> error + matrix" where
  "reconstruct lib self recon_pc_num =
     (case KernelPCA lib (Some recon_pc_num) (kernel self) (gamma self) (random_state self)
             (matrix self) of
        Inl e \<Rightarrow> Inl e
      | Inr t \<Rightarrow>
          if shape (inverse_transformed t) = shape (matrix self)
          then Inr (inverse_transformed t) else Inl AssertionError)"

text \<open>A list comprehension whose body can raise: the first exception ends it.\<close>

fun collect :: "('a \<Rightarrow> error + 'b) \<Rightarrow> 'a list \<Rightarrow> error + 'b list" where
  "collect f [] = Inr []"
| "collect f (x # xs) =
     (case f x of
        Inl e \<Rightarrow> Inl e
      | Inr y \<Rightarrow> (case collect f xs of Inl e \<Rightarrow> Inl e | Inr ys \<Rightarrow> Inr (y # ys)))"

text \<open>
  \<open>np.random.choice(range(col), size=2, replace=False)\<close> draws from NumPy's global
  generator, which the program never seeds. The state of that generator is the explicit
  input \<open>rng\<close>. With fewer than two elements to draw from, NumPy raises \<open>ValueError\<close>;
  otherwise the draw is an ordered pair of distinct indices below \<open>col\<close>, and every such
  pair is the draw of some \<open>rng\<close>.
\<close>

definition random_choice2 :: "nat \<Rightarrow> nat \<Rightarrow> error + nat \<times> nat" where
  "random_choice2 rng col =
     (if col < 2 then Inl ValueError
      else let i = rng mod col; j = (i + 1 + (rng div col) mod (col - 1)) mod col
           in Inr (i, j))"

definition reconstruct_matrix ::
  "library \<Rightarrow> KPCA_Recon_Error \<Rightarrow> nat \<Rightarrow> error + matrix list" where
  "reconstruct_matrix lib self rng =
     (let col = n_features self in
      case collect (reconstruct lib self) [1..<col + 1] of
        Inl e \<Rightarrow> Inl e
      | Inr recon_matrices \<Rightarrow>
          (case random_choice2 rng col of
             Inl e \<Rightarrow> Inl e
           | Inr (i, j) \<Rightarrow>
               if recon_matrices ! i \<noteq> recon_matrices ! j
               then Inr recon_matrices else Inl AssertionError))"

section \<open>Score aggregation: \<open>get_anomaly_score\<close>\<close>

definition compute_vector_length :: "real list \<Rightarrow> real" where
  "compute_vector_length vector = sqrt (sum_list (map (\<lambda>x. x\<^sup>2) vector))"

definition vec_sub :: "real list \<Rightarrow> real list \<Rightarrow> real list" where
  "vec_sub u v = map (\<lambda>(x, y). x - y) (zip u v)"

definition matrix_sub :: "matrix \<Rightarrow> matrix \<Rightarrow> matrix" where
  "matrix_sub A B = map (\<lambda>(u, v). vec_sub u v) (zip A B)"

definition compute_sub_score :: "KPCA_Recon_Error \<Rightarrow> matrix \<Rightarrow> real \<Rightarrow> real list" where
  "compute_sub_score self recon_matrix ev =
     map (\<lambda>row. compute_vector_length row * ev) (matrix_sub (matrix self) recon_matrix)"

text \<open>
  \<open>np.sum(anomaly_scores, axis=0)\<close> of a list of equally long vectors is their
  entry-wise sum; of the empty list it is the zero-dimensional scalar \<open>0.0\<close>.
\<close>

datatype ndarray = Scalar real | Vector "real list"

definition sum_axis0 :: "real list list \<Rightarrow> ndarray" where
  "sum_axis0 vs =
     (case vs of
        [] \<Rightarrow> Scalar 0
      | v # _ \<Rightarrow> Vector (map (\<lambda>i. sum_list (map (\<lambda>u. u ! i) vs)) [0..<length v]))"

text \<open>\<open>map\<close> with two sequences stops at the end of the shorter one, as \<open>zip\<close> does.\<close>

definition get_anomaly_score :: "library \<Rightarrow> KPCA_Recon_Error \<Rightarrow> nat \<Rightarrow> error + ndarray" where
  "get_anomaly_score lib self rng =
     (case get_ev_ratio lib self of
        Inl e \<Rightarrow> Inl e
      | Inr ev_ratio \<Rightarrow>
          (case reconstruct_matrix lib self rng of
             Inl e \<Rightarrow> Inl e
           | Inr reconstruct_matrices \<Rightarrow>
               Inr (sum_axis0 (map (\<lambda>(R, ev). compute_sub_score self R ev)
                                 (zip reconstruct_matrices ev_ratio)))))"

section \<open>Labelling: \<open>get_anomaly_indices\<close> and \<open>predict\<close>\<close>

text \<open>\<open>np.argsort\<close> sorts a zero-dimensional array as an array of one element.\<close>

fun as_1d :: "ndarray \<Rightarrow> real list" where
  "as_1d (Scalar x) = [x]"
| "as_1d (Vector v) = v"

text \<open>The slice \<open>xs[:m]\<close>: a negative \<open>m\<close> counts from the end.\<close>

definition slice_to :: "'a list \<Rightarrow> int \<Rightarrow> 'a list" where
  "slice_to xs m = (if 0 \<le> m then take (nat m) xs else take (length xs - nat (- m)) xs)"

text \<open>
  Float64 arithmetic rounds to the nearest representable value, a tie to the one with an
  even significand. A finite float64 is an integer multiple of a power of two: of
  \<open>2 ^ (e - 52)\<close> when its magnitude lies in \<open>[2 ^ e, 2 ^ (e + 1))\<close> with \<open>e \<ge> -1022\<close>, and
  of \<open>2 ^ (-1074)\<close> below that. A result that rounds to magnitude \<open>2 ^ 1024\<close> or more is
  an infinity.
\<close>

definition pow2 :: "int \<Rightarrow> real" where
  "pow2 e = (if 0 \<le> e then 2 ^ nat e else 1 / 2 ^ nat (- e))"

definition round_half_even :: "real \<Rightarrow> int" where
  "round_half_even x =
     (let f = \<lfloor>x\<rfloor>
      in if x - of_int f < 1 / 2 then f
         else if 1 / 2 < x - of_int f then f + 1
         else if even f then f else f + 1)"

definition round64 :: "real \<Rightarrow> float64" where
  "round64 x =
     (if x = 0 then Finite 0
      else let e = max \<lfloor>log 2 \<bar>x\<bar>\<rfloor> (- 1022);
               ulp = pow2 (e - 52);
               y = ulp * of_int (round_half_even (x / ulp))
           in if 2 ^ 1024 \<le> \<bar>y\<bar> then (if 0 < x then PosInf else NegInf) else Finite y)"

text \<open>
  \<open>len(self.matrix) * self.contamination\<close>: the length is converted to float64 and the
  two are multiplied. The conversion is exact for a length below \<open>2 ^ 53\<close>, and it is
  taken to be exact here. Zero times an infinity is NaN.
\<close>

fun times_float :: "nat \<Rightarrow> float64 \<Rightarrow> float64" where
  "times_float n (Finite c) = round64 (real n * c)"
| "times_float n PosInf = (if n = 0 then NaN else PosInf)"
| "times_float n NegInf = (if n = 0 then NaN else NegInf)"
| "times_float n NaN = NaN"

text \<open>
  \<open>int(np.ceil(x))\<close>: the ceiling of a finite float64 is a float64, and \<open>int\<close> converts
  it exactly; \<open>int\<close> raises \<open>OverflowError\<close> on an infinity and \<open>ValueError\<close> on NaN.
\<close>

fun int_ceil :: "float64 \<Rightarrow> error + int" where
  "int_ceil (Finite y) = Inr \<lceil>y\<rceil>"
| "int_ceil PosInf = Inl OverflowError"
| "int_ceil NegInf = Inl OverflowError"
| "int_ceil NaN = Inl ValueError"

definition anomaly_num :: "KPCA_Recon_Error \<Rightarrow> error + int" where
  "anomaly_num self = int_ceil (times_float (n_samples self) (contamination self))"

text \<open>The scores are computed and sorted first; the contamination is read after that.\<close>

definition get_anomaly_indices :: "library \<Rightarrow> KPCA_Recon_Error \<Rightarrow> nat \<Rightarrow> error + nat list" where
  "get_anomaly_indices lib self rng =
     (case get_anomaly_score lib self rng of
        Inl e \<Rightarrow> Inl e
      | Inr score \<Rightarrow>
          (let indices_desc = argsort lib (map uminus (as_1d score))
           in case anomaly_num self of
                Inl e \<Rightarrow> Inl e
              | Inr m \<Rightarrow> Inr (slice_to indices_desc m)))"

definition predict :: "library \<Rightarrow> KPCA_Recon_Error \<Rightarrow> nat \<Rightarrow> error + nat list" where
  "predict lib self rng =
     (case get_anomaly_indices lib self rng of
        Inl e \<Rightarrow> Inl e
      | Inr anomaly_indices \<Rightarrow>
          Inr (map (\<lambda>i. if i \<in> set anomaly_indices then 1 else 0)
                 [0..<n_samples self]))"

section \<open>A decomposition and two sorts to run the program on\<close>

text \<open>
  Concrete routines for evaluating the program. \<open>toy_KernelPCA\<close> keeps what matters of
  the interface of \<open>KernelPCA\<close>: the kernel matrix of \<open>n\<close> rows is \<open>n \<times> n\<close>, so a fit keeps
  at most \<open>n\<close> components whatever number is requested, the fit with
  \<open>n_components=None\<close> returns the positive eigenvalues in descending order (at most
  \<open>n - 1\<close> of them after centring), and the reconstruction has the shape of its input.
\<close>

definition toy_KernelPCA ::
  "nat option \<Rightarrow> string \<Rightarrow> real option \<Rightarrow> int \<Rightarrow> matrix \<Rightarrow> error + transformer" where
  "toy_KernelPCA n_components k g rs X =
     (let n = length X;
          r = (case n_components of None \<Rightarrow> n - 1 | Some c \<Rightarrow> min c n)
      in Inr \<lparr>lambdas = map (\<lambda>i. real (n - i)) [0..<r],
              inverse_transformed = map (map (\<lambda>x. x * real r / real (r + 1))) X\<rparr>)"

text \<open>A stable sort of the indices.\<close>

definition stable_argsort :: "real list \<Rightarrow> nat list" where
  "stable_argsort xs = sort_key (\<lambda>i. xs ! i) [0..<length xs]"

text \<open>
  The sort behind \<open>np.argsort\<close> with the default \<open>kind='quicksort'\<close> is NumPy's introsort
  (\<open>aquicksort\<close> in \<open>npysort/quicksort.cpp\<close>), followed here on the array \<open>tosort\<close> of
  indices with the keys \<open>v\<close>. A segment of more than 17 indices is partitioned: the
  indices at its first, middle and last position are put in the order of their keys,
  the middle one is the pivot and is parked at the last position but one, two pointers
  run inwards from both ends and swap every pair they stop at, and the pivot is swapped
  to where they meet. The two sides are sorted in the same way. A segment of at most 17
  indices is sorted by insertion, which is stable. The fuel bounds the loops, which stop
  earlier, at the sentinels that the partition leaves at both ends. NumPy switches to
  heapsort when the partitions nest deeper than twice the binary logarithm of the
  length; that switch is left out, so these definitions follow NumPy on the inputs that
  stay within that depth. A build of NumPy that hands this sort to a vectorized routine
  may order equal keys in yet another way; NumPy documents the kind as not stable.
\<close>

definition intp_swap :: "nat \<Rightarrow> nat \<Rightarrow> nat list \<Rightarrow> nat list" where
  "intp_swap i j tosort = tosort[i := tosort ! j, j := tosort ! i]"

fun scan_up :: "nat \<Rightarrow> real list \<Rightarrow> real \<Rightarrow> nat list \<Rightarrow> nat \<Rightarrow> nat" where
  "scan_up 0 v vp tosort i = i"
| "scan_up (Suc fuel) v vp tosort i =
     (if v ! (tosort ! i) < vp then scan_up fuel v vp tosort (i + 1) else i)"

fun scan_down :: "nat \<Rightarrow> real list \<Rightarrow> real \<Rightarrow> nat list \<Rightarrow> nat \<Rightarrow> nat" where
  "scan_down 0 v vp tosort j = j"
| "scan_down (Suc fuel) v vp tosort j =
     (if vp < v ! (tosort ! j) then scan_down fuel v vp tosort (j - 1) else j)"

fun hoare :: "nat \<Rightarrow> real list \<Rightarrow> real \<Rightarrow> nat list \<Rightarrow> nat \<Rightarrow> nat \<Rightarrow> nat \<times> nat list" where
  "hoare 0 v vp tosort i j = (i, tosort)"
| "hoare (Suc fuel) v vp tosort i j =
     (let i' = scan_up (length tosort) v vp tosort (i + 1);
          j' = scan_down (length tosort) v vp tosort (j - 1)
      in if j' \<le> i' then (i', tosort)
         else hoare fuel v vp (intp_swap i' j' tosort) i' j')"

definition quicksort_partition :: "real list \<Rightarrow> nat list \<Rightarrow> nat list \<times> nat \<times> nat list" where
  "quicksort_partition v tosort =
     (let r = length tosort - 1;
          m = r div 2;
          t1 = (if v ! (tosort ! m) < v ! (tosort ! 0) then intp_swap m 0 tosort else tosort);
          t2 = (if v ! (t1 ! r) < v ! (t1 ! m) then intp_swap r m t1 else t1);
          t3 = (if v ! (t2 ! m) < v ! (t2 ! 0) then intp_swap m 0 t2 else t2);
          vp = v ! (t3 ! m);
          t4 = intp_swap m (r - 1) t3
      in case hoare (length tosort) v vp t4 0 (r - 1) of
           (i, t5) \<Rightarrow>
             (let t6 = intp_swap i (r - 1) t5
              in (take i t6, t6 ! i, drop (i + 1) t6)))"

fun aquicksort :: "nat \<Rightarrow> real list \<Rightarrow> nat list \<Rightarrow> nat list" where
  "aquicksort 0 v tosort = sort_key (\<lambda>i. v ! i) tosort"
| "aquicksort (Suc fuel) v tosort =
     (if 17 < length tosort
      then (case quicksort_partition v tosort of
              (left, pivot, right) \<Rightarrow> aquicksort fuel v left @ pivot # aquicksort fuel v right)
      else sort_key (\<lambda>i. v ! i) tosort)"

definition numpy_argsort :: "real list \<Rightarrow> nat list" where
  "numpy_argsort xs = aquicksort (length xs) xs [0..<length xs]"

definition toy_library :: library where
  "toy_library =
     \<lparr>StandardScaler_fit_transform = Inr, KernelPCA = toy_KernelPCA, argsort = stable_argsort\<rparr>"

text \<open>The documented contract of \<open>np.argsort\<close>: a permutation of the indices that sorts.\<close>

definition argsort_spec :: "(real list \<Rightarrow> nat list) \<Rightarrow> real list \<Rightarrow> bool" where
  "argsort_spec f xs \<longleftrightarrow>
     mset (f xs) = mset [0..<length xs] \<and> sorted (map (\<lambda>i. xs ! i) (f xs))"

text \<open>
  The score of row \<open>i\<close> in the words of the specification, for comparison with the code:
  the sum over all component counts \<open>k = 1..d\<close> of the norm of row \<open>i\<close> of the
  standardized matrix minus the \<open>k\<close>-component reconstruction, times the cumulative
  explained-variance ratio at \<open>k\<close>, which is the sum of the top \<open>k\<close> eigenvalues over the
  sum of all eigenvalues.
\<close>

definition spec_anomaly_score ::
  "KPCA_Recon_Error \<Rightarrow> real list \<Rightarrow> matrix list \<Rightarrow> nat \<Rightarrow> real" where
  "spec_anomaly_score self eigenvalues Rs i =
     sum_list (map (\<lambda>k. compute_vector_length (vec_sub (matrix self ! i) (Rs ! k ! i)) *
                         (sum_list (take (Suc k) eigenvalues) / sum_list eigenvalues))
                 [0..<n_features self])"

text \<open>A matrix with every entry multiplied by \<open>c\<close>, to write reconstructions down.\<close>

definition scaled :: "real \<Rightarrow> matrix \<Rightarrow> matrix" where
  "scaled c X = map (map (\<lambda>x. x * c)) X"

text \<open>
  Standardized matrices to run the program on: every column has mean 0 and variance 1.
  The contaminations \<open>1/4\<close> and \<open>1/2\<close> are float64 values. The contamination of
  \<open>example_5x2\<close> is the float64 value of the literal \<open>0.2\<close>, and that of \<open>example_25x2\<close> is
  the float64 value of the literal \<open>0.28\<close>.
\<close>

definition example_4x2 :: KPCA_Recon_Error where
  "example_4x2 =
     \<lparr>matrix = [[1, 1], [- 1, - 1], [1, - 1], [- 1, 1]], contamination = Finite (1 / 4),
      kernel = ''rbf'', gamma = None, random_state = 2018\<rparr>"

definition example_4x6 :: KPCA_Recon_Error where
  "example_4x6 =
     \<lparr>matrix = [[1, 1, 1, - 1, - 1, - 1], [1, - 1, - 1, - 1, 1, 1],
                [- 1, 1, - 1, 1, - 1, 1], [- 1, - 1, 1, 1, 1, - 1]],
      contamination = Finite (1 / 2), kernel = ''rbf'', gamma = None, random_state = 2018\<rparr>"

definition example_2x1 :: KPCA_Recon_Error where
  "example_2x1 =
     \<lparr>matrix = [[- 1], [1]], contamination = Finite (1 / 4),
      kernel = ''rbf'', gamma = None, random_state = 2018\<rparr>"

definition example_5x2 :: KPCA_Recon_Error where
  "example_5x2 =
     \<lparr>matrix = [[3 / 2, 3 / 2], [- (3 / 2), - (3 / 2)], [1 / 2, 1 / 2], [- (1 / 2), - (1 / 2)],
                [0, 0]],
      contamination = Finite (3602879701896397 / 18014398509481984),
      kernel = ''rbf'', gamma = None, random_state = 2018\<rparr>"

definition example_25x2 :: KPCA_Recon_Error where
  "example_25x2 =
     \<lparr>matrix = [5 / 4, 5 / 4] # replicate 7 [5 / 4, 5 / 4] @
                replicate 8 [- (5 / 4), - (5 / 4)] @ replicate 9 [0, 0],
      contamination = Finite (1261007895663739 / 4503599627370496),
      kernel = ''rbf'', gamma = None, random_state = 2018\<rparr>"

definition example_32x2 :: KPCA_Recon_Error where
  "example_32x2 =
     \<lparr>matrix = concat (replicate 8 [[1, 1], [- 1, - 1], [1, - 1], [- 1, 1]]),
      contamination = Finite (1 / 2), kernel = ''rbf'', gamma = None, random_state = 2018\<rparr>"

section \<open>Properties of the spectrum\<close>

lemma length_cumsum_from: "length (cumsum_from a xs) = length xs"
  by (induction xs arbitrary: a) auto

lemma cumsum_from_nth:
  "k < length xs \<Longrightarrow> cumsum_from a xs ! k = a + sum_list (take (Suc k) xs)"
proof (induction xs arbitrary: a k)
  case Nil
  then show ?case by simp
next
  case (Cons x xs)
  show ?case
  proof (cases k)
    case 0
    then show ?thesis by simp
  next
    case (Suc j)
    with Cons.prems have "j < length xs" by simp
    from Cons.IH [OF this, of "a + x"] Suc show ?thesis by simp
  qed
qed

lemma cumsum_from_lower:
  "\<forall>x\<in>set xs. 0 \<le> x \<Longrightarrow> y \<in> set (cumsum_from a xs) \<Longrightarrow> a \<le> y"
proof (induction xs arbitrary: a)
  case Nil
  then show ?case by simp
next
  case (Cons x xs)
  from Cons.prems have x: "0 \<le> x" and rest: "\<forall>z\<in>set xs. 0 \<le> z" by simp_all
  from Cons.prems(2) have "y = a + x \<or> y \<in> set (cumsum_from (a + x) xs)" by simp
  then show ?case
  proof
    assume "y = a + x" with x show ?thesis by simp
  next
    assume "y \<in> set (cumsum_from (a + x) xs)"
    from Cons.IH [OF rest this] x show ?thesis by simp
  qed
qed

lemma sorted_cumsum_from:
  "\<forall>x\<in>set xs. 0 \<le> x \<Longrightarrow> sorted (cumsum_from a xs)"
proof (induction xs arbitrary: a)
  case Nil
  then show ?case by simp
next
  case (Cons x xs)
  from Cons.prems have rest: "\<forall>z\<in>set xs. 0 \<le> z" by simp
  have "\<forall>y\<in>set (cumsum_from (a + x) xs). a + x \<le> y"
    using cumsum_from_lower [OF rest] by blast
  with Cons.IH [OF rest, of "a + x"] show ?case by simp
qed

lemma last_cumsum_from:
  "xs \<noteq> [] \<Longrightarrow> last (cumsum_from a xs) = a + sum_list xs"
proof (induction xs arbitrary: a)
  case Nil
  then show ?case by simp
next
  case (Cons x xs)
  show ?case
  proof (cases "xs = []")
    case True
    then show ?thesis by simp
  next
    case False
    then have "cumsum_from (a + x) xs \<noteq> []" by (cases xs) auto
    with Cons.IH [OF False, of "a + x"] show ?thesis by simp
  qed
qed

lemma sorted_map_divide:
  fixes c :: real
  assumes "sorted xs" and "0 \<le> c"
  shows "sorted (map (\<lambda>x. x / c) xs)"
  using assms by (induction xs) (auto simp: divide_right_mono)

text \<open>
  C2, as the code has it. \<open>get_ev_ratio\<close> returns one ratio for each eigenvalue that the
  fit with \<open>n_components=None\<close> returns: when the eigenvalues do not sum to zero, entry
  \<open>k\<close> (counted from 1) is the sum of the first \<open>k\<close> eigenvalues over the sum of all of
  them. When the eigenvalues are non-negative with a positive sum, the vector is
  non-decreasing and ends in 1. Its length is the number of eigenvalues of the fit; the
  code does not tie it to the number of features.
\<close>

theorem get_ev_ratio_spectrum:
  assumes fit:
    "KernelPCA lib None (kernel self) (gamma self) (random_state self) (matrix self) = Inr t"
  shows "\<exists>ev. get_ev_ratio lib self = Inr ev \<and> length ev = length (lambdas t) \<and>
           (sum_list (lambdas t) \<noteq> 0 \<longrightarrow>
              (\<forall>k<length ev.
                 ev ! k = sum_list (take (Suc k) (lambdas t)) / sum_list (lambdas t))) \<and>
           ((\<forall>x\<in>set (lambdas t). 0 \<le> x) \<and> 0 < sum_list (lambdas t) \<longrightarrow>
              sorted ev \<and> last ev = 1)"
proof -
  let ?l = "lambdas t"
  let ?ev = "map (\<lambda>c. c / sum_list ?l) (cumsum ?l)"
  have ret: "get_ev_ratio lib self = Inr ?ev"
    by (simp add: get_ev_ratio_def fit)
  have len: "length ?ev = length ?l"
    by (simp add: cumsum_def length_cumsum_from)
  have nth: "\<forall>k<length ?ev. ?ev ! k = sum_list (take (Suc k) ?l) / sum_list ?l"
    by (simp add: cumsum_def length_cumsum_from cumsum_from_nth)
  have mono: "sorted ?ev \<and> last ?ev = 1"
    if nonneg: "\<forall>x\<in>set ?l. 0 \<le> x" and pos: "0 < sum_list ?l"
  proof
    show "sorted ?ev"
      using sorted_map_divide [OF sorted_cumsum_from [OF nonneg, of 0], of "sum_list ?l"] pos
      by (simp add: cumsum_def)
    from pos have ne: "?l \<noteq> []" by auto
    then have "cumsum ?l \<noteq> []" by (cases ?l) (auto simp: cumsum_def)
    then have "last ?ev = last (cumsum ?l) / sum_list ?l" by (simp add: last_map)
    also have "\<dots> = 1" using last_cumsum_from [OF ne, of 0] pos by (simp add: cumsum_def)
    finally show "last ?ev = 1" .
  qed
  from ret len nth mono show ?thesis by blast
qed

lemma toy_fit_4x2:
  "KernelPCA toy_library None (kernel example_4x2) (gamma example_4x2)
     (random_state example_4x2) (matrix example_4x2) =
   Inr \<lparr>lambdas = [4, 3, 2],
        inverse_transformed = [[3 / 4, 3 / 4], [- (3 / 4), - (3 / 4)], [3 / 4, - (3 / 4)],
                               [- (3 / 4), 3 / 4]]\<rparr>"
  by (simp add: toy_library_def toy_KernelPCA_def example_4x2_def upt_rec)

theorem get_ev_ratio_spectrum_witness:
  "\<exists>ev. get_ev_ratio toy_library example_4x2 = Inr ev \<and> length ev = 3 \<and>
        ev ! 1 = 7 / 9 \<and> sorted ev \<and> last ev = 1"
  using get_ev_ratio_spectrum [OF toy_fit_4x2] by auto

text \<open>
  The claim C2 as stated fails: on four rows of two features the fit returns three
  eigenvalues, so the vector has three entries, not two.
\<close>

theorem get_ev_ratio_length_counterexample:
  "get_ev_ratio toy_library example_4x2 = Inr [4 / 9, 7 / 9, 1] \<and>
   n_features example_4x2 = 2 \<and>
   length [4 / 9, 7 / 9, 1 :: real] \<noteq> n_features example_4x2"
  by (simp add: get_ev_ratio_def toy_library_def toy_KernelPCA_def example_4x2_def
      cumsum_def shape_def upt_rec)

section \<open>Properties of the reconstruction sweep\<close>

lemma collect_Inr_iff:
  "collect f xs = Inr ys \<longleftrightarrow> length ys = length xs \<and> (\<forall>i<length xs. f (xs ! i) = Inr (ys ! i))"
proof (induction xs arbitrary: ys)
  case Nil
  then show ?case by auto
next
  case (Cons x xs)
  show ?case
  proof (cases "f x")
    case (Inl e)
    then show ?thesis by auto
  next
    case (Inr y)
    show ?thesis
    proof (cases "collect f xs")
      case (Inl e)
      with Cons.IH have no: "\<And>zs. \<not> (length zs = length xs \<and> (\<forall>i<length xs. f (xs ! i) = Inr (zs ! i)))"
        by auto
      have "\<not> (length ys = length (x # xs) \<and> (\<forall>i<length (x # xs). f ((x # xs) ! i) = Inr (ys ! i)))"
      proof
        assume a: "length ys = length (x # xs) \<and> (\<forall>i<length (x # xs). f ((x # xs) ! i) = Inr (ys ! i))"
        then obtain z zs where ys: "ys = z # zs" by (cases ys) auto
        from a ys have "length zs = length xs \<and> (\<forall>i<length xs. f (xs ! i) = Inr (zs ! i))"
          by auto
        with no show False by blast
      qed
      with Inl \<open>f x = Inr y\<close> show ?thesis by simp
    next
      case (Inr zs)
      with Cons.IH have zs: "length zs = length xs" "\<forall>i<length xs. f (xs ! i) = Inr (zs ! i)"
        by auto
      show ?thesis
      proof
        assume "collect f (x # xs) = Inr ys"
        with Inr \<open>f x = Inr y\<close> have ys: "ys = y # zs" by simp
        show "length ys = length (x # xs) \<and> (\<forall>i<length (x # xs). f ((x # xs) ! i) = Inr (ys ! i))"
          using ys zs \<open>f x = Inr y\<close> by (auto simp: nth_Cons split: nat.splits)
      next
        assume a: "length ys = length (x # xs) \<and> (\<forall>i<length (x # xs). f ((x # xs) ! i) = Inr (ys ! i))"
        then obtain w ws where ys: "ys = w # ws" by (cases ys) auto
        from a ys have w: "f x = Inr w" by auto
        from a ys have ws: "length ws = length xs \<and> (\<forall>i<length xs. f (xs ! i) = Inr (ws ! i))"
          by auto
        then have "collect f xs = Inr ws" using Cons.IH by blast
        with Inr have "ws = zs" by simp
        with w \<open>f x = Inr y\<close> ys Inr show "collect f (x # xs) = Inr ys" by simp
      qed
    qed
  qed
qed

lemma random_choice2_small: "col < 2 \<Longrightarrow> random_choice2 rng col = Inl ValueError"
  by (simp add: random_choice2_def)

lemma random_choice2_distinct:
  assumes "random_choice2 rng col = Inr (i, j)"
  shows "i < col \<and> j < col \<and> i \<noteq> j"
proof -
  from assms have col: "2 \<le> col" by (auto simp: random_choice2_def split: if_splits)
  define q where "q = (rng div col) mod (col - 1)"
  from assms col have i: "i = rng mod col" and j: "j = (i + 1 + q) mod col"
    by (auto simp: random_choice2_def Let_def q_def split: if_splits)
  from col have q: "q < col - 1" by (simp add: q_def)
  from col i have ilt: "i < col" by simp
  from col j have jlt: "j < col" by simp
  have "j \<noteq> i"
  proof (cases "i + 1 + q < col")
    case True
    then show ?thesis using j by simp
  next
    case False
    then have ge: "col \<le> i + 1 + q" by simp
    from ilt q have "i + 1 + q < 2 * col" by simp
    with ge have "(i + 1 + q) mod col = i + 1 + q - col"
      by (simp add: mod_if)
    with j ge q show ?thesis by simp
  qed
  with ilt jlt show ?thesis by simp
qed

lemma random_choice2_onto:
  assumes "i < col" "j < col" "i \<noteq> j"
  shows "\<exists>rng. random_choice2 rng col = Inr (i, j)"
proof -
  from assms have col: "2 \<le> col" by simp
  define q where "q = (if i < j then j - i - 1 else col + j - i - 1)"
  from assms have q: "q < col - 1" by (auto simp: q_def)
  have wrap: "(i + 1 + q) mod col = j"
  proof (cases "i < j")
    case True
    then show ?thesis using assms by (simp add: q_def)
  next
    case False
    with assms have "i + 1 + q = col + j" by (simp add: q_def)
    then show ?thesis using assms by simp
  qed
  define rng where "rng = i + col * q"
  from assms have m: "rng mod col = i" by (simp add: rng_def)
  from assms have d: "rng div col = q" by (simp add: rng_def)
  have "random_choice2 rng col = Inr (i, j)"
    using col m d q wrap by (simp add: random_choice2_def Let_def)
  then show ?thesis ..
qed


lemma reconstruct_shape:
  "reconstruct lib self k = Inr R \<Longrightarrow> shape R = shape (matrix self)"
  by (auto simp: reconstruct_def split: sum.splits if_splits)

lemma reconstruct_matrix_Inr_iff:
  "reconstruct_matrix lib self rng = Inr Rs \<longleftrightarrow>
     length Rs = n_features self \<and>
     (\<forall>k<n_features self. reconstruct lib self (Suc k) = Inr (Rs ! k)) \<and>
     (\<exists>i j. random_choice2 rng (n_features self) = Inr (i, j) \<and> Rs ! i \<noteq> Rs ! j)"
proof -
  let ?d = "n_features self"
  have sweep: "collect (reconstruct lib self) [1..<?d + 1] = Inr Rs \<longleftrightarrow>
      length Rs = ?d \<and> (\<forall>k<?d. reconstruct lib self (Suc k) = Inr (Rs ! k))"
  proof -
    have len: "length [1..<?d + 1] = ?d" by simp
    have nth: "[1..<?d + 1] ! i = Suc i" if "i < ?d" for i
      using that by (simp del: upt_Suc add: nth_upt)
    show ?thesis
      unfolding collect_Inr_iff len using nth by auto
  qed
  show ?thesis
  proof (cases "collect (reconstruct lib self) [1..<?d + 1]")
    case (Inl e)
    with sweep show ?thesis by (auto simp: reconstruct_matrix_def Let_def)
  next
    case (Inr Qs)
    show ?thesis
    proof (cases "random_choice2 rng ?d")
      case (Inl e)
      with Inr show ?thesis by (auto simp: reconstruct_matrix_def Let_def)
    next
      case draw: (Inr p)
      obtain i j where p: "p = (i, j)" by (cases p)
      show ?thesis
      proof (cases "Qs = Rs")
        case True
        with Inr draw p sweep show ?thesis
          by (auto simp: reconstruct_matrix_def Let_def)
      next
        case False
        with Inr sweep have "\<not> (length Rs = ?d \<and> (\<forall>k<?d. reconstruct lib self (Suc k) = Inr (Rs ! k)))"
          by auto
        with Inr draw p False show ?thesis
          by (auto simp: reconstruct_matrix_def Let_def)
      qed
    qed
  qed
qed

lemma collect_first_error:
  assumes "k < length xs" and "f (xs ! k) = Inl e" and "\<forall>j<k. \<exists>y. f (xs ! j) = Inr y"
  shows "collect f xs = Inl e"
  using assms
proof (induction xs arbitrary: k)
  case Nil
  then show ?case by simp
next
  case (Cons x xs)
  show ?case
  proof (cases k)
    case 0
    with Cons.prems(2) show ?thesis by simp
  next
    case (Suc k')
    with Cons.prems(3) obtain y where y: "f x = Inr y" by fastforce
    from Suc Cons.prems(1) have lt: "k' < length xs" by simp
    from Suc Cons.prems(2) have bad: "f (xs ! k') = Inl e" by simp
    have "\<forall>j<k'. \<exists>y. f (xs ! j) = Inr y"
    proof (intro allI impI)
      fix j assume "j < k'"
      then have "Suc j < k" using Suc by simp
      with Cons.prems(3) have "\<exists>y. f ((x # xs) ! Suc j) = Inr y" by blast
      then show "\<exists>y. f (xs ! j) = Inr y" by simp
    qed
    from Cons.IH [OF lt bad this] y show ?thesis by simp
  qed
qed

lemma reconstruct_of_fit:
  assumes "KernelPCA lib (Some k) (kernel self) (gamma self) (random_state self) (matrix self) =
             Inr t"
  shows "reconstruct lib self k =
           (if shape (inverse_transformed t) = shape (matrix self)
            then Inr (inverse_transformed t) else Inl AssertionError)"
  using assms by (simp add: reconstruct_def)

lemma toy_sweep_4x2:
  "reconstruct_matrix toy_library example_4x2 0 =
   Inr [[[1 / 2, 1 / 2], [- (1 / 2), - (1 / 2)], [1 / 2, - (1 / 2)], [- (1 / 2), 1 / 2]],
        [[2 / 3, 2 / 3], [- (2 / 3), - (2 / 3)], [2 / 3, - (2 / 3)], [- (2 / 3), 2 / 3]]]"
  by (simp add: reconstruct_matrix_def reconstruct_def toy_library_def toy_KernelPCA_def
      example_4x2_def shape_def random_choice2_def upt_rec Let_def)

lemma toy_sweep_4x6:
  "reconstruct_matrix toy_library example_4x6 0 =
   Inr (map (\<lambda>c. scaled c (matrix example_4x6)) [1 / 2, 2 / 3, 3 / 4, 4 / 5, 4 / 5, 4 / 5])"
  by (simp add: reconstruct_matrix_def reconstruct_def toy_library_def toy_KernelPCA_def
      example_4x6_def shape_def random_choice2_def upt_rec Let_def scaled_def)

lemma toy_sweep_4x6_fails:
  "reconstruct_matrix toy_library example_4x6 4 = Inl AssertionError"
  by (simp add: reconstruct_matrix_def reconstruct_def toy_library_def toy_KernelPCA_def
      example_4x6_def shape_def random_choice2_def upt_rec Let_def)

lemma toy_fit_shape:
  "\<exists>t. KernelPCA toy_library (Some k) kn g rs M = Inr t \<and> shape (inverse_transformed t) = shape M"
  by (cases M) (simp_all add: toy_library_def toy_KernelPCA_def shape_def Let_def)

text \<open>
  C6, as the code has it. With at least two features, when each of the \<open>d\<close> fits returns
  a reconstruction of the shape of the standardized matrix, the sweep builds exactly
  these \<open>d\<close> matrices in the order \<open>k = 1..d\<close>; the spot check then draws two distinct
  positions, and \<open>reconstruct_matrix\<close> returns the \<open>d\<close> matrices when the two drawn
  matrices differ and raises \<open>AssertionError\<close> when they are equal. A fit whose
  reconstruction has another shape makes \<open>reconstruct\<close> raise \<open>AssertionError\<close>; then
  \<open>reconstruct_matrix\<close> returns nothing, and it raises that \<open>AssertionError\<close> when the
  fits for the smaller component counts went through.
\<close>

theorem reconstruct_matrix_sweep:
  "(2 \<le> n_features self \<and>
    (\<forall>k\<in>{1..n_features self}.
       \<exists>t. KernelPCA lib (Some k) (kernel self) (gamma self) (random_state self) (matrix self) =
              Inr t \<and>
           shape (inverse_transformed t) = shape (matrix self)) \<longrightarrow>
    (\<exists>Rs i j. length Rs = n_features self \<and>
       (\<forall>k<n_features self.
          \<exists>t. KernelPCA lib (Some (Suc k)) (kernel self) (gamma self) (random_state self)
                 (matrix self) = Inr t \<and>
              Rs ! k = inverse_transformed t \<and> shape (Rs ! k) = shape (matrix self)) \<and>
       random_choice2 rng (n_features self) = Inr (i, j) \<and>
       reconstruct_matrix lib self rng =
         (if Rs ! i \<noteq> Rs ! j then Inr Rs else Inl AssertionError))) \<and>
   (\<forall>k t. 1 \<le> k \<and> k \<le> n_features self \<and>
          KernelPCA lib (Some k) (kernel self) (gamma self) (random_state self) (matrix self) =
            Inr t \<and>
          shape (inverse_transformed t) \<noteq> shape (matrix self) \<longrightarrow>
          reconstruct lib self k = Inl AssertionError \<and>
          (\<exists>e. reconstruct_matrix lib self rng = Inl e) \<and>
          ((\<forall>j\<in>{1..<k}. \<exists>R. reconstruct lib self j = Inr R) \<longrightarrow>
             reconstruct_matrix lib self rng = Inl AssertionError))"
proof (intro conjI allI impI)
  let ?d = "n_features self"
  let ?fit = "\<lambda>k. KernelPCA lib (Some k) (kernel self) (gamma self) (random_state self)
                    (matrix self)"
  assume a: "2 \<le> ?d \<and>
    (\<forall>k\<in>{1..?d}. \<exists>t. ?fit k = Inr t \<and> shape (inverse_transformed t) = shape (matrix self))"
  define Rs where "Rs = map (\<lambda>k. inverse_transformed (projr (?fit k))) [1..<?d + 1]"
  have len: "length Rs = ?d" by (simp add: Rs_def)
  have nth: "Rs ! k = inverse_transformed (projr (?fit (Suc k)))" if "k < ?d" for k
    using that unfolding Rs_def by (simp del: upt_Suc add: nth_upt)
  have fit: "\<exists>t. ?fit (Suc k) = Inr t \<and> Rs ! k = inverse_transformed t \<and>
      shape (Rs ! k) = shape (matrix self)" if k: "k < ?d" for k
  proof -
    from k have "Suc k \<in> {1..?d}" by simp
    with a obtain t where t: "?fit (Suc k) = Inr t"
      and sh: "shape (inverse_transformed t) = shape (matrix self)" by blast
    from t nth [OF k] have "Rs ! k = inverse_transformed t" by simp
    with t sh show ?thesis by simp
  qed
  have rec: "reconstruct lib self (Suc k) = Inr (Rs ! k)" if k: "k < ?d" for k
  proof -
    from fit [OF k] obtain t where t: "?fit (Suc k) = Inr t"
      and r: "Rs ! k = inverse_transformed t" and sh: "shape (Rs ! k) = shape (matrix self)"
      by blast
    from reconstruct_of_fit [OF t] r sh show ?thesis by simp
  qed
  have sweep: "collect (reconstruct lib self) [1..<?d + 1] = Inr Rs"
  proof -
    have l: "length [1..<?d + 1] = ?d" by simp
    have n: "[1..<?d + 1] ! i = Suc i" if "i < ?d" for i
      using that by (simp del: upt_Suc add: nth_upt)
    show ?thesis unfolding collect_Inr_iff l using len rec n by auto
  qed
  from a obtain i j where draw: "random_choice2 rng ?d = Inr (i, j)"
    by (auto simp: random_choice2_def Let_def)
  have "reconstruct_matrix lib self rng =
      (if Rs ! i \<noteq> Rs ! j then Inr Rs else Inl AssertionError)"
    using sweep draw by (simp add: reconstruct_matrix_def Let_def)
  with len fit draw
  show "\<exists>Rs i j. length Rs = ?d \<and>
       (\<forall>k<?d. \<exists>t. ?fit (Suc k) = Inr t \<and> Rs ! k = inverse_transformed t \<and>
              shape (Rs ! k) = shape (matrix self)) \<and>
       random_choice2 rng ?d = Inr (i, j) \<and>
       reconstruct_matrix lib self rng =
         (if Rs ! i \<noteq> Rs ! j then Inr Rs else Inl AssertionError)"
    by blast
next
  fix k t
  assume a: "1 \<le> k \<and> k \<le> n_features self \<and>
          KernelPCA lib (Some k) (kernel self) (gamma self) (random_state self) (matrix self) =
            Inr t \<and>
          shape (inverse_transformed t) \<noteq> shape (matrix self)"
  then show bad: "reconstruct lib self k = Inl AssertionError"
    by (simp add: reconstruct_def)
  from a obtain k' where k': "k = Suc k'" "k' < n_features self" by (cases k) auto
  show "\<exists>e. reconstruct_matrix lib self rng = Inl e"
  proof (cases "reconstruct_matrix lib self rng")
    case (Inl e)
    then show ?thesis by blast
  next
    case (Inr Qs)
    with k' have "reconstruct lib self k = Inr (Qs ! k')"
      by (simp add: reconstruct_matrix_Inr_iff)
    with bad show ?thesis by simp
  qed
  assume before: "\<forall>j\<in>{1..<k}. \<exists>R. reconstruct lib self j = Inr R"
  let ?ks = "[1..<n_features self + 1]"
  have n: "?ks ! i = Suc i" if "i < n_features self" for i
    using that by (simp del: upt_Suc add: nth_upt)
  have lt: "k' < length ?ks" using k' by simp
  have at: "reconstruct lib self (?ks ! k') = Inl AssertionError"
    using bad k' n [of k'] by simp
  have "\<forall>j<k'. \<exists>y. reconstruct lib self (?ks ! j) = Inr y"
  proof (intro allI impI)
    fix j assume j: "j < k'"
    with k' have "j < n_features self" by simp
    from n [OF this] have "?ks ! j = Suc j" .
    moreover from j k' have "Suc j \<in> {1..<k}" by simp
    ultimately show "\<exists>y. reconstruct lib self (?ks ! j) = Inr y" using before by simp
  qed
  from collect_first_error [OF lt at this]
  show "reconstruct_matrix lib self rng = Inl AssertionError"
    by (simp add: reconstruct_matrix_def)
qed

theorem reconstruct_matrix_sweep_witness:
  "(\<exists>Rs. reconstruct_matrix toy_library example_4x2 0 = Inr Rs \<and> length Rs = 2 \<and>
         shape (Rs ! 0) = (4, 2) \<and> shape (Rs ! 1) = (4, 2)) \<and>
   reconstruct_matrix
     (toy_library\<lparr>KernelPCA :=
        \<lambda>n k g rs X. Inr \<lparr>lambdas = [1], inverse_transformed = [[0, 0]]\<rparr>\<rparr>)
     example_4x2 0 = Inl AssertionError"
proof
  have d: "n_features example_4x2 = 2" and sh: "shape (matrix example_4x2) = (4, 2)"
    by (simp_all add: example_4x2_def shape_def)
  have fits: "2 \<le> n_features example_4x2 \<and>
    (\<forall>k\<in>{1..n_features example_4x2}.
       \<exists>t. KernelPCA toy_library (Some k) (kernel example_4x2) (gamma example_4x2)
              (random_state example_4x2) (matrix example_4x2) = Inr t \<and>
           shape (inverse_transformed t) = shape (matrix example_4x2))"
    using toy_fit_shape d by simp
  from reconstruct_matrix_sweep [of example_4x2 toy_library 0, THEN conjunct1, rule_format,
      OF fits]
  obtain Rs i j where len: "length Rs = n_features example_4x2"
    and shapes: "\<forall>k<n_features example_4x2.
          \<exists>t. KernelPCA toy_library (Some (Suc k)) (kernel example_4x2) (gamma example_4x2)
                 (random_state example_4x2) (matrix example_4x2) = Inr t \<and>
              Rs ! k = inverse_transformed t \<and> shape (Rs ! k) = shape (matrix example_4x2)"
    and ret: "reconstruct_matrix toy_library example_4x2 0 =
         (if Rs ! i \<noteq> Rs ! j then Inr Rs else Inl AssertionError)"
    by blast
  from ret have "reconstruct_matrix toy_library example_4x2 0 = Inr Rs"
    unfolding toy_sweep_4x2 by (simp split: if_splits)
  moreover from shapes [rule_format, of 0] d sh have "shape (Rs ! 0) = (4, 2)" by auto
  moreover from shapes [rule_format, of 1] d sh have "shape (Rs ! 1) = (4, 2)" by auto
  ultimately show "\<exists>Rs. reconstruct_matrix toy_library example_4x2 0 = Inr Rs \<and>
      length Rs = 2 \<and> shape (Rs ! 0) = (4, 2) \<and> shape (Rs ! 1) = (4, 2)"
    using len d by simp
next
  let ?t = "\<lparr>lambdas = [1], inverse_transformed = [[0, 0]]\<rparr>"
  let ?lib = "toy_library\<lparr>KernelPCA := \<lambda>n k g rs X. Inr ?t\<rparr>"
  have d: "n_features example_4x2 = 2" and sh: "shape (matrix example_4x2) = (4, 2)"
    by (simp_all add: example_4x2_def shape_def)
  have sh': "shape (inverse_transformed ?t) = (1, 2)"
    by (simp add: shape_def)
  have bad: "1 \<le> (1::nat) \<and> 1 \<le> n_features example_4x2 \<and>
     KernelPCA ?lib (Some 1) (kernel example_4x2) (gamma example_4x2)
       (random_state example_4x2) (matrix example_4x2) = Inr ?t \<and>
     shape (inverse_transformed ?t) \<noteq> shape (matrix example_4x2)"
    unfolding sh sh' d by simp
  have before: "\<forall>j\<in>{1..<1::nat}. \<exists>R. reconstruct ?lib example_4x2 j = Inr R" by simp
  from reconstruct_matrix_sweep [of example_4x2 ?lib 0, THEN conjunct2, rule_format, OF bad,
      THEN conjunct2, THEN conjunct2, THEN mp, OF before]
  show "reconstruct_matrix ?lib example_4x2 0 = Inl AssertionError" .
qed

text \<open>
  The claim C6 as stated fails: the return of the \<open>d\<close> matrices depends on the draw of the
  spot check, which is not part of the configuration. On four rows of six features a fit
  keeps at most four components, so all six reconstructions are built, each of the
  shape of the standardized matrix, and those for \<open>k = 4, 5, 6\<close> coincide; the run whose
  spot check draws the positions 4 and 5 raises \<open>AssertionError\<close> and returns nothing.
\<close>

theorem reconstruct_matrix_sweep_counterexample:
  "collect (reconstruct toy_library example_4x6) [1, 2, 3, 4, 5, 6] =
     Inr (map (\<lambda>c. scaled c (matrix example_4x6)) [1 / 2, 2 / 3, 3 / 4, 4 / 5, 4 / 5, 4 / 5]) \<and>
   shape (scaled (4 / 5) (matrix example_4x6)) = shape (matrix example_4x6) \<and>
   n_features example_4x6 = 6 \<and>
   random_choice2 4 6 = Inr (4, 5) \<and>
   reconstruct_matrix toy_library example_4x6 4 = Inl AssertionError"
  unfolding toy_sweep_4x6_fails
  by (simp add: reconstruct_def toy_library_def toy_KernelPCA_def example_4x6_def shape_def
      random_choice2_def Let_def scaled_def)

text \<open>
  C7. With one feature the sweep cannot return: \<open>np.random.choice\<close> is asked for two
  distinct indices out of one and raises \<open>ValueError\<close>, whatever the decomposition does.
\<close>

theorem reconstruct_matrix_one_feature:
  "\<forall>lib rng. (\<exists>e. reconstruct_matrix lib example_2x1 rng = Inl e) \<and>
     reconstruct_matrix toy_library example_2x1 rng = Inl ValueError"
proof (intro allI conjI)
  fix lib rng
  have d: "n_features example_2x1 = 1" by (simp add: example_2x1_def shape_def)
  show "\<exists>e. reconstruct_matrix lib example_2x1 rng = Inl e"
  proof (cases "reconstruct_matrix lib example_2x1 rng")
    case (Inl e)
    then show ?thesis by blast
  next
    case (Inr Rs)
    then obtain i j where "random_choice2 rng (n_features example_2x1) = Inr (i, j)"
      unfolding reconstruct_matrix_Inr_iff by blast
    with d show ?thesis by (simp add: random_choice2_def)
  qed
  show "reconstruct_matrix toy_library example_2x1 rng = Inl ValueError"
    by (simp add: reconstruct_matrix_def reconstruct_def toy_library_def toy_KernelPCA_def
        example_2x1_def shape_def random_choice2_def upt_rec Let_def)
qed

section \<open>Properties of the score aggregation\<close>

lemma reconstruct_matrix_length:
  "reconstruct_matrix lib self rng = Inr Rs \<Longrightarrow> length Rs = n_features self"
  by (simp add: reconstruct_matrix_Inr_iff)

lemma reconstruct_matrix_two:
  assumes "reconstruct_matrix lib self rng = Inr Rs"
  shows "2 \<le> n_features self"
proof -
  from assms obtain i j where "random_choice2 rng (n_features self) = Inr (i, j)"
    unfolding reconstruct_matrix_Inr_iff by blast
  then show ?thesis by (auto simp: random_choice2_def split: if_splits)
qed

lemma reconstruct_matrix_rows:
  assumes "reconstruct_matrix lib self rng = Inr Rs" and "k < n_features self"
  shows "length (Rs ! k) = n_samples self"
proof -
  from assms have "reconstruct lib self (Suc k) = Inr (Rs ! k)"
    by (simp add: reconstruct_matrix_Inr_iff)
  then have "shape (Rs ! k) = shape (matrix self)" by (rule reconstruct_shape)
  then show ?thesis by (simp add: shape_def)
qed

lemma length_compute_sub_score:
  "length (compute_sub_score self R w) = min (n_samples self) (length R)"
  by (simp add: compute_sub_score_def matrix_sub_def)

lemma compute_sub_score_nth:
  assumes "i < n_samples self" and "i < length R"
  shows "compute_sub_score self R w ! i =
           compute_vector_length (vec_sub (matrix self ! i) (R ! i)) * w"
  using assms by (simp add: compute_sub_score_def matrix_sub_def)

lemma sum_list_column:
  "sum_list (map (\<lambda>u. u ! i) vs) = sum_list (map (\<lambda>k. vs ! k ! i) [0..<length vs])"
proof -
  have "map (\<lambda>u. u ! i) vs = map (\<lambda>k. vs ! k ! i) [0..<length vs]"
    by (rule nth_equalityI) simp_all
  then show ?thesis by simp
qed

lemma sum_axis0_Vector:
  assumes "vs \<noteq> []"
  shows "sum_axis0 vs =
     Vector (map (\<lambda>i. sum_list (map (\<lambda>k. vs ! k ! i) [0..<length vs])) [0..<length (hd vs)])"
proof -
  from assms obtain v ws where vs: "vs = v # ws" by (cases vs) auto
  have "sum_axis0 (v # ws) =
      Vector (map (\<lambda>i. sum_list (map (\<lambda>u. u ! i) (v # ws))) [0..<length v])"
    by (simp only: sum_axis0_def list.case)
  then show ?thesis
    unfolding vs by (simp only: sum_list_column list.sel)
qed

lemma zip_take_right: "zip xs (take (length xs) ys) = zip xs ys"
  by (induction xs ys rule: list_induct2') auto

lemma get_anomaly_score_Inr:
  assumes "get_ev_ratio lib self = Inr ev" and "reconstruct_matrix lib self rng = Inr Rs"
  shows "get_anomaly_score lib self rng =
           Inr (sum_axis0 (map (\<lambda>(R, w). compute_sub_score self R w) (zip Rs ev)))"
  using assms by (simp add: get_anomaly_score_def)

lemma get_anomaly_score_of_sweep:
  assumes "get_ev_ratio lib self = Inr ev"
  shows "get_anomaly_score lib self rng =
     (case reconstruct_matrix lib self rng of
        Inl e \<Rightarrow> Inl e
      | Inr Rs \<Rightarrow> Inr (sum_axis0 (map (\<lambda>(R, w). compute_sub_score self R w) (zip Rs ev))))"
  using assms by (simp add: get_anomaly_score_def)


lemma compute_vector_length_6:
  assumes "b\<^sup>2 = a\<^sup>2" "c\<^sup>2 = a\<^sup>2" "d\<^sup>2 = a\<^sup>2" "e\<^sup>2 = a\<^sup>2" "f\<^sup>2 = a\<^sup>2"
  shows "compute_vector_length [a, b, c, d, e, f] = sqrt 6 * \<bar>a\<bar>"
proof -
  have "sum_list (map (\<lambda>x. x\<^sup>2) [a, b, c, d, e, f]) = 6 * a\<^sup>2"
    using assms by simp
  then have "compute_vector_length [a, b, c, d, e, f] = sqrt (6 * a\<^sup>2)"
    by (simp only: compute_vector_length_def)
  also have "\<dots> = sqrt 6 * \<bar>a\<bar>" by (simp add: real_sqrt_mult)
  finally show ?thesis .
qed


lemma example_4x6_facts:
  "n_samples example_4x6 = 4" "n_features example_4x6 = 6"
  "contamination example_4x6 = Finite (1 / 2)"
  by (simp_all add: example_4x6_def shape_def)


lemma toy_ev_4x6: "get_ev_ratio toy_library example_4x6 = Inr [4 / 9, 7 / 9, 1]"
  by (simp add: get_ev_ratio_def toy_library_def toy_KernelPCA_def example_4x6_def
      cumsum_def upt_rec)


lemma toy_score_4x6:
  "get_anomaly_score toy_library example_4x6 0 =
     Inr (Vector [sqrt 6 * (79 / 108), sqrt 6 * (79 / 108), sqrt 6 * (79 / 108),
                  sqrt 6 * (79 / 108)])"
  unfolding get_anomaly_score_of_sweep [OF toy_ev_4x6] toy_sweep_4x6
  by (simp add: sum_axis0_def compute_sub_score_def matrix_sub_def vec_sub_def scaled_def
      compute_vector_length_6 example_4x6_def upt_rec)


lemma toy_ev_4x2: "get_ev_ratio toy_library example_4x2 = Inr [4 / 9, 7 / 9, 1]"
  by (simp add: get_ev_ratio_def toy_library_def toy_KernelPCA_def example_4x2_def
      cumsum_def upt_rec)

lemma anomaly_score_entries:
  assumes ev: "get_ev_ratio lib self = Inr ev"
    and Rs: "reconstruct_matrix lib self rng = Inr Rs"
    and ne: "ev \<noteq> []"
  shows "\<exists>s. get_anomaly_score lib self rng = Inr (Vector s) \<and> length s = n_samples self \<and>
           (\<forall>i<n_samples self.
              s ! i = sum_list (map (\<lambda>k. compute_vector_length
                                            (vec_sub (matrix self ! i) (Rs ! k ! i)) * ev ! k)
                                  [0..<min (n_features self) (length ev)]))"
proof -
  let ?d = "n_features self" and ?n = "n_samples self"
  let ?vs = "map (\<lambda>(R, w). compute_sub_score self R w) (zip Rs ev)"
  let ?m = "min ?d (length ev)"
  let ?s = "map (\<lambda>i. sum_list (map (\<lambda>k. ?vs ! k ! i) [0..<length ?vs])) [0..<length (hd ?vs)]"
  have len: "length Rs = ?d" using Rs by (rule reconstruct_matrix_length)
  have d2: "2 \<le> ?d" using Rs by (rule reconstruct_matrix_two)
  have lvs: "length ?vs = ?m" using len by simp
  have m0: "0 < ?m" using d2 ne by simp
  have vne: "?vs \<noteq> []"
  proof
    assume "?vs = []"
    then have "length ?vs = 0" by (simp only: list.size)
    with lvs m0 show False by linarith
  qed
  have entry: "?vs ! k = compute_sub_score self (Rs ! k) (ev ! k)" if "k < ?m" for k
    using that len by simp
  have rows: "length (?vs ! k) = ?n" if "k < ?m" for k
    using that entry [OF that] reconstruct_matrix_rows [OF Rs, of k]
    by (simp add: length_compute_sub_score)
  have "hd ?vs = ?vs ! 0" using vne by (simp add: hd_conv_nth)
  then have lhd: "length (hd ?vs) = ?n" using rows [OF m0] by simp
  have score: "get_anomaly_score lib self rng = Inr (Vector ?s)"
    using get_anomaly_score_Inr [OF ev Rs] sum_axis0_Vector [OF vne] by simp
  have ls: "length ?s = ?n" using lhd by simp
  have nth: "?s ! i = sum_list (map (\<lambda>k. compute_vector_length
                 (vec_sub (matrix self ! i) (Rs ! k ! i)) * ev ! k) [0..<?m])"
    if i: "i < ?n" for i
  proof -
    have "?s ! i = sum_list (map (\<lambda>k. ?vs ! k ! i) [0..<?m])"
      using i lhd lvs by simp
    also have "map (\<lambda>k. ?vs ! k ! i) [0..<?m] =
        map (\<lambda>k. compute_vector_length (vec_sub (matrix self ! i) (Rs ! k ! i)) * ev ! k) [0..<?m]"
    proof (rule map_cong [OF refl])
      fix k assume "k \<in> set [0..<?m]"
      then have k: "k < ?m" by simp
      then have kd: "k < ?d" by simp
      have "i < length (Rs ! k)" using reconstruct_matrix_rows [OF Rs kd] i by simp
      then show "?vs ! k ! i =
          compute_vector_length (vec_sub (matrix self ! i) (Rs ! k ! i)) * ev ! k"
        using entry [OF k] compute_sub_score_nth [OF i] by simp
    qed
    finally show ?thesis .
  qed
  from score ls nth show ?thesis by blast
qed


text \<open>
  C1 fails on the code. The comment in \<open>get_anomaly_score\<close> says that the scores of
  all reconstruction matrices are summed, one term for each component count
  \<open>k = 1..d\<close>. The code pairs the \<open>d\<close> reconstructions with the ratios by \<open>map\<close>, which
  stops at the shorter sequence, and the number of ratios is the number of eigenvalues
  of the fit, not \<open>d\<close>. On four rows of six features the fit returns three eigenvalues:
  all six reconstructions are built, \<open>get_anomaly_score\<close> adds up the terms of the first
  three only, \<open>sqrt 6 * (79 / 108)\<close> for row 0, and the terms of \<open>k = 4, 5, 6\<close>,
  \<open>sqrt 6 * (3 / 5)\<close> in all, are missing from the score.
\<close>

theorem get_anomaly_score_drops_terms:
  "\<exists>Rs s. reconstruct_matrix toy_library example_4x6 0 = Inr Rs \<and> length Rs = 6 \<and>
     KernelPCA toy_library None (kernel example_4x6) (gamma example_4x6)
       (random_state example_4x6) (matrix example_4x6) =
       Inr \<lparr>lambdas = [4, 3, 2],
            inverse_transformed = scaled (3 / 4) (matrix example_4x6)\<rparr> \<and>
     get_ev_ratio toy_library example_4x6 = Inr [4 / 9, 7 / 9, 1] \<and>
     get_anomaly_score toy_library example_4x6 0 = Inr (Vector s) \<and>
     s ! 0 = sqrt 6 * (79 / 108) \<and>
     spec_anomaly_score example_4x6 [4, 3, 2] Rs 0 = sqrt 6 * (79 / 108) + sqrt 6 * (3 / 5)"
  unfolding toy_score_4x6 toy_sweep_4x6 toy_ev_4x6
  by (simp add: spec_anomaly_score_def toy_library_def toy_KernelPCA_def example_4x6_def
      shape_def vec_sub_def scaled_def compute_vector_length_6 upt_rec)

text \<open>
  C9. When the ratio vector is longer than the list of reconstructions,
  \<open>get_anomaly_score\<close> pairs the \<open>d\<close> reconstructions with the first \<open>d\<close> ratios: the
  result is the one computed from the first \<open>d\<close> ratios alone, and no later entry of
  the ratio vector has any influence on it.
\<close>

theorem get_anomaly_score_truncates:
  assumes ev: "get_ev_ratio lib self = Inr ev"
    and Rs: "reconstruct_matrix lib self rng = Inr Rs"
    and longer: "length Rs < length ev"
  shows "length Rs = n_features self \<and>
         length (zip Rs ev) = n_features self \<and>
         get_anomaly_score lib self rng =
           Inr (sum_axis0 (map (\<lambda>(R, w). compute_sub_score self R w)
                             (zip Rs (take (n_features self) ev)))) \<and>
         (\<forall>ev'. take (n_features self) ev' = take (n_features self) ev \<longrightarrow>
            sum_axis0 (map (\<lambda>(R, w). compute_sub_score self R w) (zip Rs ev')) =
            sum_axis0 (map (\<lambda>(R, w). compute_sub_score self R w) (zip Rs ev)))"
proof -
  have len: "length Rs = n_features self" using Rs by (rule reconstruct_matrix_length)
  have cut: "zip Rs (take (n_features self) xs) = zip Rs xs" for xs :: "real list"
    using zip_take_right [of Rs xs] len by simp
  have "length (zip Rs ev) = n_features self" using len longer by simp
  moreover have "get_anomaly_score lib self rng =
      Inr (sum_axis0 (map (\<lambda>(R, w). compute_sub_score self R w)
                        (zip Rs (take (n_features self) ev))))"
    using get_anomaly_score_Inr [OF ev Rs] cut by simp
  moreover have "sum_axis0 (map (\<lambda>(R, w). compute_sub_score self R w) (zip Rs ev')) =
      sum_axis0 (map (\<lambda>(R, w). compute_sub_score self R w) (zip Rs ev))"
    if "take (n_features self) ev' = take (n_features self) ev" for ev'
    using cut [of ev'] cut [of ev] that by simp
  ultimately show ?thesis using len by blast
qed

theorem get_anomaly_score_truncates_witness:
  "\<exists>Rs. reconstruct_matrix toy_library example_4x2 0 = Inr Rs \<and> length Rs = 2 \<and>
     get_ev_ratio toy_library example_4x2 = Inr [4 / 9, 7 / 9, 1] \<and>
     get_anomaly_score toy_library example_4x2 0 =
       Inr (sum_axis0 (map (\<lambda>(R, w). compute_sub_score example_4x2 R w)
                         (zip Rs [4 / 9, 7 / 9])))"
proof -
  let ?Rs = "[[[1 / 2, 1 / 2], [- (1 / 2), - (1 / 2)], [1 / 2, - (1 / 2)], [- (1 / 2), 1 / 2]],
        [[2 / 3, 2 / 3], [- (2 / 3), - (2 / 3)], [2 / 3, - (2 / 3)], [- (2 / 3), 2 / 3 :: real]]]"
  have longer: "length ?Rs < length [4 / 9, 7 / 9, 1 :: real]" by simp
  have d: "n_features example_4x2 = 2" by (simp add: example_4x2_def shape_def)
  from get_anomaly_score_truncates [OF toy_ev_4x2 toy_sweep_4x2 longer]
  have "get_anomaly_score toy_library example_4x2 0 =
       Inr (sum_axis0 (map (\<lambda>(R, w). compute_sub_score example_4x2 R w)
                         (zip ?Rs (take (n_features example_4x2) [4 / 9, 7 / 9, 1]))))"
    by blast
  then have "get_anomaly_score toy_library example_4x2 0 =
       Inr (sum_axis0 (map (\<lambda>(R, w). compute_sub_score example_4x2 R w)
                         (zip ?Rs [4 / 9, 7 / 9])))"
    unfolding d by (simp add: numeral_2_eq_2)
  with toy_sweep_4x2 toy_ev_4x2 show ?thesis by simp
qed

section \<open>Properties of the float64 product\<close>

lemma pow2_powr: "pow2 e = 2 powr (of_int e)"
  by (simp add: pow2_def powr_real_of_int inverse_eq_divide)

lemma pow2_pos: "0 < pow2 e"
  by (simp add: pow2_def)

lemma pow2_mono: "a \<le> b \<Longrightarrow> pow2 a \<le> pow2 b"
  by (simp add: pow2_powr)

lemma floor_log2:
  assumes "0 < x" and "pow2 e \<le> x" and "x < pow2 (e + 1)"
  shows "\<lfloor>log 2 x\<rfloor> = e"
proof -
  have "2 powr (of_int e) \<le> x \<and> x < 2 powr (of_int e + 1)"
    using assms by (simp add: pow2_powr)
  then show ?thesis using assms(1) by (simp add: floor_log_eq_powr_iff)
qed

text \<open>The rounding of a value whose binary exponent \<open>e\<close> is known.\<close>

lemma round64_eval:
  assumes "x \<noteq> 0" and "pow2 e \<le> \<bar>x\<bar>" and "\<bar>x\<bar> < pow2 (e + 1)" and "- 1022 \<le> e"
  shows "round64 x =
     (let y = pow2 (e - 52) * of_int (round_half_even (x / pow2 (e - 52)))
      in if 2 ^ 1024 \<le> \<bar>y\<bar> then (if 0 < x then PosInf else NegInf) else Finite y)"
proof -
  from assms(1) have "0 < \<bar>x\<bar>" by simp
  from floor_log2 [OF this assms(2,3)] assms(1,4) show ?thesis
    by (simp add: round64_def Let_def max_def)
qed

lemma round_half_even_upper: "of_int (round_half_even x) \<le> x + 1 / 2"
  unfolding round_half_even_def Let_def by (auto; linarith)

lemma round_half_even_nonneg: "0 \<le> x \<Longrightarrow> 0 \<le> round_half_even x"
  unfolding round_half_even_def Let_def by (auto; linarith)

lemma round64_zero: "round64 0 = Finite 0"
  by (simp add: round64_def)

lemma round64_cases:
  assumes "0 \<le> x"
  shows "round64 x = PosInf \<or> (\<exists>y. round64 x = Finite y \<and> 0 \<le> y)"
proof (cases "x = 0")
  case True
  then show ?thesis by (simp add: round64_def)
next
  case False
  define u where "u = pow2 (max \<lfloor>log 2 \<bar>x\<bar>\<rfloor> (- 1022) - 52)"
  define y where "y = u * of_int (round_half_even (x / u))"
  have u: "0 < u" by (simp add: u_def pow2_pos)
  with assms have "0 \<le> x / u" by simp
  then have "0 \<le> round_half_even (x / u)" by (rule round_half_even_nonneg)
  with u have y: "0 \<le> y" by (simp add: y_def)
  from False assms have pos: "0 < x" by simp
  have "round64 x = (if 2 ^ 1024 \<le> \<bar>y\<bar> then PosInf else Finite y)"
    using False pos by (simp add: round64_def Let_def u_def y_def)
  with y show ?thesis by auto
qed

text \<open>
  The rounded product stays within the number of rows when the exact product is at most
  half of it.
\<close>

lemma round64_half:
  assumes x: "0 \<le> x" and half: "x \<le> real n / 2" and n: "n < 2 ^ 53"
  shows "\<exists>y. round64 x = Finite y \<and> 0 \<le> y \<and> y \<le> real n"
proof (cases "x = 0")
  case True
  then show ?thesis by (simp add: round64_def)
next
  case False
  with x have pos: "0 < x" by simp
  define e where "e = max \<lfloor>log 2 \<bar>x\<bar>\<rfloor> (- 1022)"
  define u where "u = pow2 (e - 52)"
  define y where "y = u * of_int (round_half_even (x / u))"
  have u: "0 < u" by (simp add: u_def pow2_pos)
  with x have "0 \<le> x / u" by simp
  then have "0 \<le> round_half_even (x / u)" by (rule round_half_even_nonneg)
  with u have y0: "0 \<le> y" by (simp add: y_def)
  have "y \<le> u * (x / u + 1 / 2)"
    unfolding y_def using u round_half_even_upper [of "x / u"] by (simp add: mult_left_mono)
  also have "\<dots> = x + u / 2" using u by (simp add: algebra_simps)
  finally have yx: "y \<le> x + u / 2" .
  from pos half have n1: "1 \<le> real n" by (cases n) auto
  have small: "u \<le> x \<or> u \<le> 1"
  proof (cases "- 1022 \<le> \<lfloor>log 2 \<bar>x\<bar>\<rfloor>")
    case True
    then have e: "e = \<lfloor>log 2 x\<rfloor>" using pos by (simp add: e_def)
    have "u \<le> pow2 e" unfolding u_def by (rule pow2_mono) simp
    also have "\<dots> = 2 powr (of_int \<lfloor>log 2 x\<rfloor>)" by (simp add: pow2_powr e)
    also have "\<dots> \<le> 2 powr (log 2 x)" by (rule powr_mono) simp_all
    also have "\<dots> = x" using pos by simp
    finally show ?thesis by simp
  next
    case False
    then have "e = - 1022" by (simp add: e_def)
    then have "u = pow2 (- 1074)" by (simp add: u_def)
    also have "\<dots> \<le> pow2 0" by (rule pow2_mono) simp
    also have "\<dots> = 1" by (simp add: pow2_def)
    finally show ?thesis by simp
  qed
  from small yx half n1 have yn: "y \<le> real n" by auto
  have "real n < 2 ^ 53" using n by (metis of_nat_less_iff of_nat_numeral of_nat_power)
  also have "\<dots> \<le> (2::real) ^ 1024" by (rule power_increasing) simp_all
  finally have "real n < 2 ^ 1024" .
  with yn y0 have fin: "\<not> 2 ^ 1024 \<le> \<bar>y\<bar>" by simp
  have "round64 x = Finite y"
    using False fin by (simp add: round64_def Let_def e_def u_def y_def)
  with y0 yn show ?thesis by blast
qed

lemma times_float_half:
  assumes "0 \<le> c" and "c \<le> 1 / 2" and "n < 2 ^ 53"
  shows "\<exists>y. times_float n (Finite c) = Finite y \<and> 0 \<le> y \<and> y \<le> real n"
proof -
  have "0 \<le> real n * c" using assms(1) by simp
  moreover have "real n * c \<le> real n / 2"
    using mult_left_mono [OF assms(2), of "real n"] by simp
  ultimately show ?thesis using round64_half [OF _ _ assms(3)] by simp
qed

lemma times_float_nonneg:
  assumes "0 \<le> c"
  shows "times_float n (Finite c) = PosInf \<or> (\<exists>y. times_float n (Finite c) = Finite y \<and> 0 \<le> y)"
  using round64_cases [of "real n * c"] assms by simp

text \<open>The products and literals of the examples.\<close>

lemma round64_1: "round64 1 = Finite 1"
  by (simp add: round64_eval [of _ 0] pow2_def round_half_even_def)

lemma round64_2: "round64 2 = Finite 2"
  by (simp add: round64_eval [of _ 1] pow2_def round_half_even_def)

lemma round64_minus_2: "round64 (- 2) = Finite (- 2)"
  by (simp add: round64_eval [of _ 1] pow2_def round_half_even_def)

lemma round64_3: "round64 3 = Finite 3"
  by (simp add: round64_eval [of _ 1] pow2_def round_half_even_def)

lemma round64_12: "round64 12 = Finite 12"
  by (simp add: round64_eval [of _ 3] pow2_def round_half_even_def)

lemma round64_16: "round64 16 = Finite 16"
  by (simp add: round64_eval [of _ 4] pow2_def round_half_even_def)

lemma round64_overflow: "round64 (4 * 2 ^ 1023) = PosInf"
  by (simp add: round64_eval [of _ 1025] pow2_def round_half_even_def)

lemma round64_fifth: "round64 (1 / 5) = Finite (3602879701896397 / 18014398509481984)"
  by (simp add: round64_eval [of _ "- 3"] pow2_def round_half_even_def)

lemma round64_7_25: "round64 (7 / 25) = Finite (1261007895663739 / 4503599627370496)"
  by (simp add: round64_eval [of _ "- 2"] pow2_def round_half_even_def)

lemma round64_5_fifths: "round64 (18014398509481985 / 18014398509481984) = Finite 1"
  by (simp add: round64_eval [of _ 0] pow2_def round_half_even_def)

lemma round64_25_times:
  "round64 (31525197391593475 / 4503599627370496) =
     Finite (7881299347898369 / 1125899906842624)"
  by (simp add: round64_eval [of _ 2] pow2_def round_half_even_def)

section \<open>Properties of the labelling\<close>

lemma get_anomaly_score_Vector_length:
  assumes "get_anomaly_score lib self rng = Inr (Vector s)"
  shows "length s = n_samples self"
proof -
  from assms obtain ev Rs where ev: "get_ev_ratio lib self = Inr ev"
    and Rs: "reconstruct_matrix lib self rng = Inr Rs"
    by (auto simp: get_anomaly_score_def split: sum.splits)
  have ne: "ev \<noteq> []"
  proof
    assume "ev = []"
    with get_anomaly_score_Inr [OF ev Rs] have "get_anomaly_score lib self rng = Inr (Scalar 0)"
      by (simp add: sum_axis0_def)
    with assms show False by simp
  qed
  from anomaly_score_entries [OF ev Rs ne] assms show ?thesis by auto
qed

lemma argsort_spec_perm:
  assumes "argsort_spec f xs"
  shows "distinct (f xs)" and "set (f xs) = {0..<length xs}" and "length (f xs) = length xs"
proof -
  from assms have m: "mset (f xs) = mset [0..<length xs]" by (simp add: argsort_spec_def)
  from m show "distinct (f xs)" by (metis distinct_upt mset_eq_imp_distinct_iff)
  from m show "set (f xs) = {0..<length xs}" by (metis mset_eq_setD set_upt)
  from m show "length (f xs) = length xs" by (metis mset_eq_length length_upt diff_zero)
qed

lemma argsort_spec_stable_argsort: "argsort_spec stable_argsort xs"
  by (simp add: argsort_spec_def stable_argsort_def sorted_sort_key)

lemma slice_to_prefix:
  "slice_to xs m = take (if 0 \<le> m then nat m else length xs - nat (- m)) xs"
  by (simp add: slice_to_def)

lemma count_list_flags:
  "count_list (map (\<lambda>i. if i \<in> A then 1 else 0) xs) (1::nat) = length (filter (\<lambda>i. i \<in> A) xs)"
  by (induction xs) auto

lemma count_list_zero_one:
  "set p \<subseteq> {0, 1::nat} \<Longrightarrow> count_list p 0 + count_list p 1 = length p"
  by (induction p) auto

lemma length_filter_member:
  assumes "distinct idx" and "set idx \<subseteq> {0..<n}"
  shows "length (filter (\<lambda>i. i \<in> set idx) [0..<n]) = length idx"
proof -
  have "length (filter (\<lambda>i. i \<in> set idx) [0..<n]) = card ({i. i \<in> set idx} \<inter> set [0..<n])"
    by (rule distinct_length_filter) simp
  also have "{i. i \<in> set idx} \<inter> set [0..<n] = set idx" using assms(2) by auto
  also have "card (set idx) = length idx" using assms(1) by (rule distinct_card)
  finally show ?thesis .
qed


lemma anomaly_num_Finite:
  assumes "times_float (n_samples self) (contamination self) = Finite y"
  shows "anomaly_num self = Inr \<lceil>y\<rceil>"
  using assms by (simp add: anomaly_num_def)

lemma get_anomaly_indices_Inr:
  assumes "get_anomaly_score lib self rng = Inr sc" and "anomaly_num self = Inr m"
  shows "get_anomaly_indices lib self rng =
     Inr (slice_to (argsort lib (map uminus (as_1d sc))) m)"
  using assms by (simp add: get_anomaly_indices_def)

lemma get_anomaly_indices_raises:
  assumes "get_anomaly_score lib self rng = Inr sc" and "anomaly_num self = Inl e"
  shows "get_anomaly_indices lib self rng = Inl e"
  using assms by (simp add: get_anomaly_indices_def)

lemma predict_Inr:
  assumes "get_anomaly_indices lib self rng = Inr idx"
  shows "predict lib self rng =
     Inr (map (\<lambda>i. if i \<in> set idx then 1 else 0) [0..<n_samples self])"
  using assms by (simp add: predict_def)

lemma prefix_indices:
  assumes spec: "argsort_spec f xs"
  shows "distinct (take k (f xs))" and "set (take k (f xs)) \<subseteq> {0..<length xs}"
    and "length (take k (f xs)) = min k (length xs)"
proof -
  show "distinct (take k (f xs))" using argsort_spec_perm(1) [OF spec] by simp
  show "set (take k (f xs)) \<subseteq> {0..<length xs}"
    using argsort_spec_perm(2) [OF spec] set_take_subset [of k "f xs"] by blast
  show "length (take k (f xs)) = min k (length xs)"
    using argsort_spec_perm(3) [OF spec] by simp
qed

lemma predict_ones:
  assumes score: "get_anomaly_score lib self rng = Inr (Vector s)"
    and spec: "argsort_spec (argsort lib) (map uminus s)"
    and num: "anomaly_num self = Inr m" and nonneg: "0 \<le> m"
  shows "\<exists>idx p. get_anomaly_indices lib self rng = Inr idx \<and>
      idx = take (nat m) (argsort lib (map uminus s)) \<and>
      length idx = min (nat m) (n_samples self) \<and>
      distinct idx \<and> (\<forall>i\<in>set idx. i < n_samples self) \<and>
      predict lib self rng = Inr p \<and> length p = n_samples self \<and> set p \<subseteq> {0, 1} \<and>
      count_list p 1 = min (nat m) (n_samples self)"
proof -
  let ?n = "n_samples self"
  let ?idx = "take (nat m) (argsort lib (map uminus s))"
  let ?p = "map (\<lambda>i. if i \<in> set ?idx then 1 else 0 :: nat) [0..<?n]"
  have n: "length (map uminus s) = ?n"
    using get_anomaly_score_Vector_length [OF score] by simp
  have idx: "get_anomaly_indices lib self rng = Inr ?idx"
    using get_anomaly_indices_Inr [OF score num] nonneg by (simp add: slice_to_def)
  have p: "predict lib self rng = Inr ?p" using predict_Inr [OF idx] .
  have d: "distinct ?idx" using prefix_indices(1) [OF spec] .
  have sub: "set ?idx \<subseteq> {0..<?n}" using prefix_indices(2) [OF spec] n by simp
  have len: "length ?idx = min (nat m) ?n" using prefix_indices(3) [OF spec] n by simp
  have ones: "count_list ?p 1 = min (nat m) ?n"
    using length_filter_member [OF d sub] len by (simp only: count_list_flags)
  have bits: "set ?p \<subseteq> {0, 1}" by auto
  have "\<forall>i\<in>set ?idx. i < ?n" using sub by auto
  with idx len d p ones bits show ?thesis by simp
qed

lemma sorted_wrt_filter_nth:
  assumes "sorted_wrt R (filter P xs)" and "a < b" and "b < length xs"
    and "P (xs ! a)" and "P (xs ! b)"
  shows "R (xs ! a) (xs ! b)"
  using assms
proof (induction xs arbitrary: a b)
  case Nil
  then show ?case by simp
next
  case (Cons x xs)
  from Cons.prems(2,3) obtain b' where b: "b = Suc b'" and b': "b' < length xs"
    by (cases b) auto
  have tail: "sorted_wrt R (filter P xs)"
    using Cons.prems(1) by (cases "P x") simp_all
  show ?case
  proof (cases a)
    case 0
    with Cons.prems(4) have px: "P x" by simp
    from Cons.prems(5) b have "P (xs ! b')" by simp
    with b' have "xs ! b' \<in> set (filter P xs)" by simp
    with Cons.prems(1) px have "R x (xs ! b')" by simp
    with 0 b show ?thesis by simp
  next
    case (Suc a')
    with Cons.prems(2) b have lt: "a' < b'" by simp
    from Cons.prems(4) Suc have pa: "P (xs ! a')" by simp
    from Cons.prems(5) b have pb: "P (xs ! b')" by simp
    from Cons.IH [OF tail lt b' pa pb] Suc b show ?thesis by simp
  qed
qed

lemma stable_argsort_ties:
  assumes "a < b" and "b < length xs"
    and "xs ! (stable_argsort xs ! a) = xs ! (stable_argsort xs ! b)"
  shows "stable_argsort xs ! a < stable_argsort xs ! b"
proof -
  let ?pi = "stable_argsort xs"
  let ?P = "\<lambda>i. xs ! i = xs ! (?pi ! a)"
  have "filter ?P ?pi = filter ?P [0..<length xs]"
    unfolding stable_argsort_def by (rule sort_key_stable)
  moreover have "sorted_wrt (<) (filter ?P [0..<length xs])"
    by (rule sorted_wrt_filter) (simp add: sorted_wrt_upt)
  ultimately have sw: "sorted_wrt (<) (filter ?P ?pi)" by simp
  have len: "length ?pi = length xs" by (simp add: stable_argsort_def)
  show ?thesis
    by (rule sorted_wrt_filter_nth [OF sw assms(1)]) (simp_all add: len assms)
qed

lemma argsort_descending:
  assumes spec: "argsort_spec f (map uminus s)" and "a < b" and "b < length s"
  shows "s ! (f (map uminus s) ! b) \<le> s ! (f (map uminus s) ! a)"
proof -
  let ?xs = "map uminus s" and ?pi = "f (map uminus s)"
  have len: "length ?pi = length s" using argsort_spec_perm(3) [OF spec] by simp
  have mem: "?pi ! k < length s" if "k < length s" for k
  proof -
    from that len have "?pi ! k \<in> set ?pi" by simp
    with argsort_spec_perm(2) [OF spec] show ?thesis by simp
  qed
  from spec have "sorted (map (\<lambda>i. ?xs ! i) ?pi)" by (simp add: argsort_spec_def)
  with assms(2,3) len have "map (\<lambda>i. ?xs ! i) ?pi ! a \<le> map (\<lambda>i. ?xs ! i) ?pi ! b"
    by (simp add: sorted_iff_nth_mono)
  with assms(2,3) len have "?xs ! (?pi ! a) \<le> ?xs ! (?pi ! b)" by simp
  with mem [of a] mem [of b] assms(2,3) show ?thesis by simp
qed

lemma reconstruct_contamination:
  "reconstruct lib (self\<lparr>contamination := c\<rparr>) = reconstruct lib self"
  by (rule ext) (simp add: reconstruct_def cong: sum.case_cong)

lemma reconstruct_matrix_contamination:
  "reconstruct_matrix lib (self\<lparr>contamination := c\<rparr>) rng = reconstruct_matrix lib self rng"
  by (simp add: reconstruct_matrix_def reconstruct_contamination)

lemma compute_sub_score_contamination:
  "compute_sub_score (self\<lparr>contamination := c\<rparr>) = compute_sub_score self"
  by (intro ext) (simp add: compute_sub_score_def)

lemma get_ev_ratio_contamination:
  "get_ev_ratio lib (self\<lparr>contamination := c\<rparr>) = get_ev_ratio lib self"
  by (simp add: get_ev_ratio_def)

lemma get_anomaly_score_contamination:
  "get_anomaly_score lib (self\<lparr>contamination := c\<rparr>) rng = get_anomaly_score lib self rng"
  by (simp add: get_anomaly_score_def get_ev_ratio_contamination
      reconstruct_matrix_contamination compute_sub_score_contamination cong: sum.case_cong)

lemma anomaly_num_contamination:
  "anomaly_num (self\<lparr>contamination := c\<rparr>) = int_ceil (times_float (n_samples self) c)"
  by (simp add: anomaly_num_def)

lemma toy_score_4x2:
  "\<exists>v. get_anomaly_score toy_library example_4x2 0 = Inr (Vector [v, v, v, v])"
  unfolding get_anomaly_score_def toy_ev_4x2 toy_sweep_4x2
  by (simp add: sum_axis0_def compute_sub_score_def matrix_sub_def vec_sub_def
      compute_vector_length_def example_4x2_def upt_rec)

lemma example_4x2_facts:
  "n_samples example_4x2 = 4" "contamination example_4x2 = Finite (1 / 4)"
  "n_samples (example_4x2\<lparr>contamination := c\<rparr>) = 4"
  by (simp_all add: example_4x2_def)

lemma toy_argsort: "argsort_spec (argsort toy_library) xs"
  by (simp add: toy_library_def argsort_spec_stable_argsort)

lemma stable_argsort_const4: "stable_argsort [x, x, x, x] = [0, 1, 2, 3]"
  by (simp add: stable_argsort_def upt_rec)

lemma get_anomaly_score_argsort:
  "get_anomaly_score (lib\<lparr>argsort := f\<rparr>) self rng = get_anomaly_score lib self rng"
proof -
  have r: "reconstruct (lib\<lparr>argsort := f\<rparr>) self = reconstruct lib self"
    by (rule ext) (simp add: reconstruct_def)
  have "reconstruct_matrix (lib\<lparr>argsort := f\<rparr>) self rng = reconstruct_matrix lib self rng"
    by (simp add: reconstruct_matrix_def r)
  moreover have "get_ev_ratio (lib\<lparr>argsort := f\<rparr>) self = get_ev_ratio lib self"
    by (simp add: get_ev_ratio_def)
  ultimately show ?thesis by (simp add: get_anomaly_score_def cong: sum.case_cong)
qed


lemma toy_ev_nonempty:
  assumes "2 \<le> n_samples self"
  shows "\<exists>ev. get_ev_ratio toy_library self = Inr ev \<and> ev \<noteq> []"
proof -
  let ?l = "map (\<lambda>i. real (n_samples self - i)) [0..<n_samples self - 1]"
  have "length (cumsum ?l) = n_samples self - 1"
    by (simp add: cumsum_def length_cumsum_from)
  with assms have "cumsum ?l \<noteq> []" by auto
  then show ?thesis
    by (simp add: get_ev_ratio_def toy_library_def toy_KernelPCA_def Let_def)
qed

lemma toy_score_vector:
  assumes "2 \<le> n_samples self" and "reconstruct_matrix toy_library self rng = Inr Rs"
  shows "\<exists>s. get_anomaly_score toy_library self rng = Inr (Vector s)"
proof -
  from toy_ev_nonempty [OF assms(1)] obtain ev
    where ev: "get_ev_ratio toy_library self = Inr ev" and ne: "ev \<noteq> []" by blast
  from anomaly_score_entries [OF ev assms(2) ne] show ?thesis by blast
qed

lemma toy_score_5x2: "\<exists>s. get_anomaly_score toy_library example_5x2 0 = Inr (Vector s)"
proof -
  have "\<exists>Rs. reconstruct_matrix toy_library example_5x2 0 = Inr Rs"
    by (simp add: reconstruct_matrix_def reconstruct_def toy_library_def toy_KernelPCA_def
        example_5x2_def shape_def random_choice2_def upt_rec Let_def)
  then obtain Rs where Rs: "reconstruct_matrix toy_library example_5x2 0 = Inr Rs" ..
  have "2 \<le> n_samples example_5x2" by (simp add: example_5x2_def)
  from toy_score_vector [OF this Rs] show ?thesis .
qed

lemma toy_score_25x2: "\<exists>s. get_anomaly_score toy_library example_25x2 0 = Inr (Vector s)"
proof -
  have "\<exists>Rs. reconstruct_matrix toy_library example_25x2 0 = Inr Rs"
    by (simp add: reconstruct_matrix_def reconstruct_def toy_library_def toy_KernelPCA_def
        example_25x2_def shape_def random_choice2_def upt_rec Let_def)
  then obtain Rs where Rs: "reconstruct_matrix toy_library example_25x2 0 = Inr Rs" ..
  have "2 \<le> n_samples example_25x2" by (simp add: example_25x2_def)
  from toy_score_vector [OF this Rs] show ?thesis .
qed

lemma example_32x2_matrix:
  "matrix example_32x2 =
     [[1, 1], [- 1, - 1], [1, - 1], [- 1, 1], [1, 1], [- 1, - 1], [1, - 1], [- 1, 1],
      [1, 1], [- 1, - 1], [1, - 1], [- 1, 1], [1, 1], [- 1, - 1], [1, - 1], [- 1, 1],
      [1, 1], [- 1, - 1], [1, - 1], [- 1, 1], [1, 1], [- 1, - 1], [1, - 1], [- 1, 1],
      [1, 1], [- 1, - 1], [1, - 1], [- 1, 1], [1, 1], [- 1, - 1], [1, - 1], [- 1, 1]]"
  by (simp add: example_32x2_def numeral_eq_Suc)

lemma example_32x2_facts:
  "n_samples example_32x2 = 32" "contamination example_32x2 = Finite (1 / 2)"
  by (simp add: example_32x2_matrix) (simp add: example_32x2_def)

lemma example_products:
  "anomaly_num example_4x2 = Inr 1"
  "anomaly_num example_4x6 = Inr 2"
  "anomaly_num example_5x2 = Inr 1"
  "anomaly_num example_25x2 = Inr 8"
  "anomaly_num example_32x2 = Inr 16"
  by (simp_all add: anomaly_num_def example_32x2_facts example_4x2_def example_4x6_def
      example_5x2_def example_25x2_def round64_1 round64_2 round64_5_fifths
      round64_25_times round64_16)

text \<open>The sort of NumPy and the stable sort on 32 equal keys.\<close>

lemma scan_up_unfold:
  "scan_up fuel v vp tosort i =
     (if fuel = 0 then i
      else if v ! (tosort ! i) < vp then scan_up (fuel - 1) v vp tosort (i + 1) else i)"
  by (cases fuel) simp_all

lemma scan_down_unfold:
  "scan_down fuel v vp tosort j =
     (if fuel = 0 then j
      else if vp < v ! (tosort ! j) then scan_down (fuel - 1) v vp tosort (j - 1) else j)"
  by (cases fuel) simp_all

lemma hoare_unfold:
  "hoare fuel v vp tosort i j =
     (if fuel = 0 then (i, tosort)
      else let i' = scan_up (length tosort) v vp tosort (i + 1);
               j' = scan_down (length tosort) v vp tosort (j - 1)
           in if j' \<le> i' then (i', tosort)
              else hoare (fuel - 1) v vp (intp_swap i' j' tosort) i' j')"
  by (cases fuel) (simp_all add: Let_def)

lemma aquicksort_unfold:
  "aquicksort fuel v tosort =
     (if fuel = 0 \<or> length tosort \<le> 17 then sort_key (\<lambda>i. v ! i) tosort
      else case quicksort_partition v tosort of
             (left, pivot, right) \<Rightarrow>
               aquicksort (fuel - 1) v left @ pivot # aquicksort (fuel - 1) v right)"
  by (cases fuel) auto

lemma upt_32:
  "[0..<32] =
     [0, 1, 2, 3, 4, 5, 6, 7, 8, 9, 10, 11, 12, 13, 14, 15, 16, 17, 18, 19, 20, 21, 22,
      23, 24, 25, 26, 27, 28, 29, 30, 31]"
  by (simp add: upt_rec)

lemma replicate_32:
  "replicate 32 x =
     [x, x, x, x, x, x, x, x, x, x, x, x, x, x, x, x, x, x, x, x, x, x, x, x, x, x, x,
      x, x, x, x, x]"
  by (simp add: numeral_eq_Suc)

lemma quicksort_partition_ties:
  "quicksort_partition
     [x, x, x, x, x, x, x, x, x, x, x, x, x, x, x, x, x, x, x, x, x, x, x, x, x, x, x,
      x, x, x, x, x]
     [0, 1, 2, 3, 4, 5, 6, 7, 8, 9, 10, 11, 12, 13, 14, 15, 16, 17, 18, 19, 20, 21, 22,
      23, 24, 25, 26, 27, 28, 29, 30, 31] =
   ([0, 29, 28, 27, 26, 25, 24, 23, 22, 21, 20, 19, 18, 17, 16], 15,
    [14, 13, 12, 11, 10, 9, 8, 7, 6, 5, 4, 3, 2, 1, 30, 31])"
  by (simp add: quicksort_partition_def Let_def intp_swap_def
      hoare_unfold scan_up_unfold scan_down_unfold)

lemma numpy_argsort_ties:
  "numpy_argsort (replicate 32 x) =
     [0, 29, 28, 27, 26, 25, 24, 23, 22, 21, 20, 19, 18, 17, 16, 15, 14, 13, 12, 11, 10,
      9, 8, 7, 6, 5, 4, 3, 2, 1, 30, 31]"
proof -
  let ?v = "[x, x, x, x, x, x, x, x, x, x, x, x, x, x, x, x, x, x, x, x, x, x, x, x, x, x, x,
      x, x, x, x, x]"
  have "aquicksort 32 ?v
     [0, 1, 2, 3, 4, 5, 6, 7, 8, 9, 10, 11, 12, 13, 14, 15, 16, 17, 18, 19, 20, 21, 22,
      23, 24, 25, 26, 27, 28, 29, 30, 31] =
     aquicksort 31 ?v [0, 29, 28, 27, 26, 25, 24, 23, 22, 21, 20, 19, 18, 17, 16] @
     15 # aquicksort 31 ?v [14, 13, 12, 11, 10, 9, 8, 7, 6, 5, 4, 3, 2, 1, 30, 31]"
    by (subst aquicksort_unfold, subst quicksort_partition_ties) simp
  also have "aquicksort 31 ?v [0, 29, 28, 27, 26, 25, 24, 23, 22, 21, 20, 19, 18, 17, 16] =
     [0, 29, 28, 27, 26, 25, 24, 23, 22, 21, 20, 19, 18, 17, 16]"
    by (subst aquicksort_unfold) simp
  also have "aquicksort 31 ?v [14, 13, 12, 11, 10, 9, 8, 7, 6, 5, 4, 3, 2, 1, 30, 31] =
     [14, 13, 12, 11, 10, 9, 8, 7, 6, 5, 4, 3, 2, 1, 30, 31]"
    by (subst aquicksort_unfold) simp
  finally have main: "aquicksort 32 ?v
     [0, 1, 2, 3, 4, 5, 6, 7, 8, 9, 10, 11, 12, 13, 14, 15, 16, 17, 18, 19, 20, 21, 22,
      23, 24, 25, 26, 27, 28, 29, 30, 31] =
     [0, 29, 28, 27, 26, 25, 24, 23, 22, 21, 20, 19, 18, 17, 16, 15, 14, 13, 12, 11, 10,
      9, 8, 7, 6, 5, 4, 3, 2, 1, 30, 31]"
    by simp
  have len: "length ?v = 32" by simp
  show ?thesis unfolding replicate_32 numpy_argsort_def len upt_32 by (rule main)
qed

lemma stable_argsort_ties_32: "stable_argsort (replicate 32 x) = [0..<32]"
proof -
  let ?v = "[x, x, x, x, x, x, x, x, x, x, x, x, x, x, x, x, x, x, x, x, x, x, x, x, x, x, x,
      x, x, x, x, x]"
  have len: "length ?v = 32" by simp
  have "sort_key (\<lambda>i. ?v ! i)
     [0, 1, 2, 3, 4, 5, 6, 7, 8, 9, 10, 11, 12, 13, 14, 15, 16, 17, 18, 19, 20, 21, 22,
      23, 24, 25, 26, 27, 28, 29, 30, 31] =
     [0, 1, 2, 3, 4, 5, 6, 7, 8, 9, 10, 11, 12, 13, 14, 15, 16, 17, 18, 19, 20, 21, 22,
      23, 24, 25, 26, 27, 28, 29, 30, 31]"
    by simp
  then show ?thesis unfolding replicate_32 stable_argsort_def len upt_32 .
qed

lemma argsort_spec_numpy_argsort_ties: "argsort_spec numpy_argsort (replicate 32 x)"
proof -
  let ?pi = "[0, 29, 28, 27, 26, 25, 24, 23, 22, 21, 20, 19, 18, 17, 16, 15, 14, 13, 12, 11, 10,
      9, 8, 7, 6, 5, 4, 3, 2, 1, 30, 31] :: nat list"
  have "sort ?pi = [0..<32]" unfolding upt_32 by simp
  then have "mset (sort ?pi) = mset [0..<32]" by simp
  then have perm: "mset ?pi = mset [0..<32]" by (simp only: mset_sort)
  have "sorted (map (\<lambda>i. replicate 32 x ! i) ?pi)" by simp
  with perm show ?thesis by (simp add: argsort_spec_def numpy_argsort_ties)
qed

lemma toy_sweep_32x2:
  "reconstruct_matrix toy_library example_32x2 0 =
     Inr [scaled (1 / 2) (matrix example_32x2), scaled (2 / 3) (matrix example_32x2)]"
  by (simp add: reconstruct_matrix_def reconstruct_def toy_library_def toy_KernelPCA_def
      example_32x2_matrix shape_def random_choice2_def upt_rec Let_def scaled_def)

lemma toy_ev_32x2:
  "\<exists>ev. get_ev_ratio toy_library example_32x2 = Inr (32 / 527 # 63 / 527 # ev)"
  by (simp add: get_ev_ratio_def toy_library_def toy_KernelPCA_def example_32x2_matrix
      cumsum_def upt_rec)

lemma toy_score_32x2:
  "\<exists>v. get_anomaly_score toy_library example_32x2 0 = Inr (Vector (replicate 32 v))"
proof -
  from toy_ev_32x2 obtain ev
    where ev: "get_ev_ratio toy_library example_32x2 = Inr (32 / 527 # 63 / 527 # ev)"
    by blast
  show ?thesis
    unfolding get_anomaly_score_of_sweep [OF ev] toy_sweep_32x2 replicate_32
    by (simp add: sum_axis0_def compute_sub_score_def matrix_sub_def vec_sub_def
      compute_vector_length_def example_32x2_matrix scaled_def upt_rec)
qed

lemma n_samples_positive:
  assumes "get_anomaly_score lib self rng = Inr sc"
  shows "0 < n_samples self"
proof -
  from assms obtain Rs where "reconstruct_matrix lib self rng = Inr Rs"
    by (auto simp: get_anomaly_score_def split: sum.splits)
  then have "2 \<le> n_features self" by (rule reconstruct_matrix_two)
  then show ?thesis by (cases "matrix self") (simp_all add: shape_def)
qed

lemma predict_raises:
  assumes "get_anomaly_indices lib self rng = Inl e"
  shows "predict lib self rng = Inl e"
  using assms by (simp add: predict_def)

text \<open>
  C3, as the code has it. Let the contamination be a float64 \<open>c\<close> in \<open>[0, 1/2]\<close>, and
  let there be fewer than \<open>2 ^ 53\<close> rows. The float64 product \<open>y\<close> of the number of rows
  \<open>n\<close> and \<open>c\<close> is finite and lies in \<open>[0, n]\<close>. Whenever the scores are computed,
  \<open>predict\<close> returns a vector of 0s and 1s with one entry per row. With contamination 0
  it is the all-zero vector, whatever the scores are. When the scores are a vector and
  \<open>np.argsort\<close> meets its contract, exactly \<open>\<lceil>y\<rceil>\<close> entries are 1 and the other
  \<open>n - \<lceil>y\<rceil>\<close> are 0: the ceiling is taken of the rounded product, not of the exact one.
\<close>

theorem predict_counts:
  assumes score: "get_anomaly_score lib self rng = Inr sc"
    and c: "contamination self = Finite c" and lo: "0 \<le> c" and hi: "c \<le> 1 / 2"
    and n: "n_samples self < 2 ^ 53"
  shows "\<exists>y p. times_float (n_samples self) (contamination self) = Finite y \<and>
     0 \<le> y \<and> y \<le> real (n_samples self) \<and>
     predict lib self rng = Inr p \<and> length p = n_samples self \<and> set p \<subseteq> {0, 1} \<and>
     (c = 0 \<longrightarrow> p = replicate (n_samples self) 0) \<and>
     (\<forall>s. sc = Vector s \<and> argsort_spec (argsort lib) (map uminus s) \<longrightarrow>
          count_list p 1 = nat \<lceil>y\<rceil> \<and> count_list p 0 = n_samples self - nat \<lceil>y\<rceil>)"
proof -
  let ?n = "n_samples self"
  from times_float_half [OF lo hi n] obtain y
    where y: "times_float ?n (Finite c) = Finite y" and y0: "0 \<le> y" and yn: "y \<le> real ?n"
    by blast
  let ?idx = "slice_to (argsort lib (map uminus (as_1d sc))) \<lceil>y\<rceil>"
  let ?p = "map (\<lambda>i. if i \<in> set ?idx then 1 else 0 :: nat) [0..<?n]"
  have prod: "times_float ?n (contamination self) = Finite y" using y c by simp
  have num: "anomaly_num self = Inr \<lceil>y\<rceil>" using prod by (rule anomaly_num_Finite)
  have m0: "0 \<le> \<lceil>y\<rceil>" using y0 by simp
  from yn have "y \<le> of_int (int ?n)" by simp
  then have "\<lceil>y\<rceil> \<le> int ?n" by (rule ceiling_le)
  then have mn: "nat \<lceil>y\<rceil> \<le> ?n" by (simp only: nat_le_iff)
  have idx: "get_anomaly_indices lib self rng = Inr ?idx"
    using score num by (rule get_anomaly_indices_Inr)
  have p: "predict lib self rng = Inr ?p" using idx by (rule predict_Inr)
  have len: "length ?p = ?n" by simp
  have bits: "set ?p \<subseteq> {0, 1}" by auto
  have zero: "?p = replicate ?n 0" if "c = 0"
  proof -
    from that y have "y = 0" by (simp add: round64_zero)
    then have "?idx = []" by (simp add: slice_to_def)
    then have "?p = map (\<lambda>i. 0) [0..<?n]" by simp
    then show ?thesis by (simp add: map_replicate_const)
  qed
  have counts: "count_list ?p 1 = nat \<lceil>y\<rceil> \<and> count_list ?p 0 = ?n - nat \<lceil>y\<rceil>"
    if s: "sc = Vector s" and spec: "argsort_spec (argsort lib) (map uminus s)" for s
  proof -
    from score s have sv: "get_anomaly_score lib self rng = Inr (Vector s)" by simp
    from predict_ones [OF sv spec num m0] p
    have "count_list ?p 1 = min (nat \<lceil>y\<rceil>) ?n" by auto
    with mn have one: "count_list ?p 1 = nat \<lceil>y\<rceil>" by simp
    from count_list_zero_one [OF bits] len have "count_list ?p 0 = ?n - count_list ?p 1"
      by simp
    with one show ?thesis by simp
  qed
  show ?thesis
  proof (intro exI [of _ y] exI [of _ ?p] conjI)
    show "times_float ?n (contamination self) = Finite y" by (rule prod)
    show "0 \<le> y" by (rule y0)
    show "y \<le> real ?n" by (rule yn)
    show "predict lib self rng = Inr ?p" by (rule p)
    show "length ?p = ?n" by (rule len)
    show "set ?p \<subseteq> {0, 1}" by (rule bits)
    show "c = 0 \<longrightarrow> ?p = replicate ?n 0" using zero by blast
    show "\<forall>s. sc = Vector s \<and> argsort_spec (argsort lib) (map uminus s) \<longrightarrow>
        count_list ?p 1 = nat \<lceil>y\<rceil> \<and> count_list ?p 0 = ?n - nat \<lceil>y\<rceil>"
      using counts by blast
  qed
qed

theorem predict_counts_witness:
  "(\<exists>p. predict toy_library example_4x2 0 = Inr p \<and> length p = 4 \<and>
        count_list p 1 = 1 \<and> count_list p 0 = 3) \<and>
   predict toy_library (example_4x2\<lparr>contamination := Finite 0\<rparr>) 0 = Inr [0, 0, 0, 0]"
proof
  from toy_score_4x2 obtain v
    where sc: "get_anomaly_score toy_library example_4x2 0 = Inr (Vector [v, v, v, v])" ..
  have c: "contamination example_4x2 = Finite (1 / 4)" by (simp add: example_4x2_def)
  have n: "n_samples example_4x2 < 2 ^ 53" by (simp add: example_4x2_def)
  from predict_counts [OF sc c _ _ n] obtain y p
    where y: "times_float (n_samples example_4x2) (contamination example_4x2) = Finite y"
    and p: "predict toy_library example_4x2 0 = Inr p"
    and len: "length p = n_samples example_4x2"
    and counts: "\<forall>s. Vector [v, v, v, v] = Vector s \<and>
          argsort_spec (argsort toy_library) (map uminus s) \<longrightarrow>
          count_list p 1 = nat \<lceil>y\<rceil> \<and> count_list p 0 = n_samples example_4x2 - nat \<lceil>y\<rceil>"
    by auto
  from y have "y = 1" by (simp add: example_4x2_def round64_1)
  with counts [rule_format, of "[v, v, v, v]"] toy_argsort
  have "count_list p 1 = 1 \<and> count_list p 0 = 3"
    by (simp add: example_4x2_facts)
  with p len show "\<exists>p. predict toy_library example_4x2 0 = Inr p \<and> length p = 4 \<and>
        count_list p 1 = 1 \<and> count_list p 0 = 3"
    by (simp add: example_4x2_facts)
next
  let ?self = "example_4x2\<lparr>contamination := Finite 0\<rparr>"
  from toy_score_4x2 obtain v
    where "get_anomaly_score toy_library example_4x2 0 = Inr (Vector [v, v, v, v])" ..
  then have sc: "get_anomaly_score toy_library ?self 0 = Inr (Vector [v, v, v, v])"
    by (simp only: get_anomaly_score_contamination)
  have c: "contamination ?self = Finite 0" by simp
  have n: "n_samples ?self < 2 ^ 53" by (simp add: example_4x2_def)
  from predict_counts [OF sc c _ _ n] obtain p where p: "predict toy_library ?self 0 = Inr p"
    and zero: "(0::real) = 0 \<longrightarrow> p = replicate (n_samples ?self) 0"
    by auto
  from zero have "p = [0, 0, 0, 0]"
    by (simp add: example_4x2_facts numeral_eq_Suc)
  with p show "predict toy_library ?self 0 = Inr [0, 0, 0, 0]" by simp
qed

text \<open>
  The claim C3 as stated fails, because the ceiling is taken of the float64 product. With
  five rows and the contamination \<open>0.2\<close>, whose float64 value is a little above \<open>1/5\<close>, the
  product rounds to 1 and one row is flagged, where the ceiling of five times that value
  is 2. With 25 rows and the contamination \<open>0.28\<close> the product rounds to a value above 7
  and eight rows are flagged, where \<open>\<lceil>25 * 0.28\<rceil>\<close> is 7. Nor does every run return: on
  four rows of six features, with contamination \<open>1/2\<close>, the run whose spot check draws
  two equal reconstructions raises \<open>AssertionError\<close>.
\<close>

theorem predict_counts_counterexample:
  "contamination example_5x2 = round64 (1 / 5) \<and>
   (\<exists>p. predict toy_library example_5x2 0 = Inr p \<and> count_list p 1 = 1) \<and>
   \<lceil>real (n_samples example_5x2) * (3602879701896397 / 18014398509481984)\<rceil> = 2 \<and>
   contamination example_25x2 = round64 (7 / 25) \<and>
   (\<exists>p. predict toy_library example_25x2 0 = Inr p \<and> count_list p 1 = 8) \<and>
   \<lceil>real (n_samples example_25x2) * (7 / 25)\<rceil> = 7 \<and>
   predict toy_library example_4x6 4 = Inl AssertionError"
proof (intro conjI)
  show "contamination example_5x2 = round64 (1 / 5)"
    by (simp add: example_5x2_def round64_fifth)
  show "contamination example_25x2 = round64 (7 / 25)"
    by (simp add: example_25x2_def round64_7_25)
  show "\<lceil>real (n_samples example_5x2) * (3602879701896397 / 18014398509481984)\<rceil> = 2"
    by (simp add: example_5x2_def)
  show "\<lceil>real (n_samples example_25x2) * (7 / 25)\<rceil> = 7"
    by (simp add: example_25x2_def)
  from toy_score_5x2 obtain s
    where sc: "get_anomaly_score toy_library example_5x2 0 = Inr (Vector s)" ..
  from predict_ones [OF sc toy_argsort example_products(3)]
  show "\<exists>p. predict toy_library example_5x2 0 = Inr p \<and> count_list p 1 = 1"
    by (auto simp: example_5x2_def)
  from toy_score_25x2 obtain s'
    where sc': "get_anomaly_score toy_library example_25x2 0 = Inr (Vector s')" ..
  from predict_ones [OF sc' toy_argsort example_products(4)]
  show "\<exists>p. predict toy_library example_25x2 0 = Inr p \<and> count_list p 1 = 8"
    by (auto simp: example_25x2_def)
  have "get_anomaly_score toy_library example_4x6 4 = Inl AssertionError"
    unfolding get_anomaly_score_of_sweep [OF toy_ev_4x6] toy_sweep_4x6_fails by simp
  then show "predict toy_library example_4x6 4 = Inl AssertionError"
    by (simp add: predict_def get_anomaly_indices_def)
qed

text \<open>
  C10, as the code has it. Let the contamination be a float64 \<open>c \<ge> 0\<close>, finite or
  \<open>+inf\<close>, and let the score vector be computed. When the float64 product \<open>y\<close> of the
  number of rows \<open>n\<close> and \<open>c\<close> is finite, \<open>get_anomaly_indices\<close> returns
  \<open>min \<lceil>y\<rceil> n\<close> pairwise distinct row indices below \<open>n\<close>, and \<open>predict\<close> returns that
  many entries equal to 1, also for \<open>c\<close> above \<open>1/2\<close> or above 1. When the product is
  \<open>+inf\<close>, both raise \<open>OverflowError\<close>. There is no third case.
\<close>

theorem get_anomaly_indices_any_contamination:
  assumes score: "get_anomaly_score lib self rng = Inr (Vector s)"
    and spec: "argsort_spec (argsort lib) (map uminus s)"
    and nonneg: "(\<exists>c. contamination self = Finite c \<and> 0 \<le> c) \<or> contamination self = PosInf"
  shows "(\<exists>y idx p. times_float (n_samples self) (contamination self) = Finite y \<and> 0 \<le> y \<and>
            get_anomaly_indices lib self rng = Inr idx \<and>
            length idx = min (nat \<lceil>y\<rceil>) (n_samples self) \<and>
            distinct idx \<and> (\<forall>i\<in>set idx. i < n_samples self) \<and>
            predict lib self rng = Inr p \<and>
            count_list p 1 = min (nat \<lceil>y\<rceil>) (n_samples self)) \<or>
         (times_float (n_samples self) (contamination self) = PosInf \<and>
            get_anomaly_indices lib self rng = Inl OverflowError \<and>
            predict lib self rng = Inl OverflowError)"
proof -
  let ?n = "n_samples self"
  let ?P = "times_float ?n (contamination self)"
  have n: "0 < ?n" using score by (rule n_samples_positive)
  have "?P = PosInf \<or> (\<exists>y. ?P = Finite y \<and> 0 \<le> y)"
    using nonneg
  proof
    assume "\<exists>c. contamination self = Finite c \<and> 0 \<le> c"
    then obtain c where "contamination self = Finite c" and "0 \<le> c" by blast
    with times_float_nonneg [of c ?n] show ?thesis by simp
  next
    assume "contamination self = PosInf"
    with n show ?thesis by simp
  qed
  then show ?thesis
  proof (elim disjE exE conjE)
    assume inf: "?P = PosInf"
    then have "anomaly_num self = Inl OverflowError" by (simp add: anomaly_num_def)
    from get_anomaly_indices_raises [OF score this]
    have idx: "get_anomaly_indices lib self rng = Inl OverflowError" .
    from predict_raises [OF idx] inf idx show ?thesis by blast
  next
    fix y
    assume fin: "?P = Finite y" and y0: "0 \<le> y"
    have num: "anomaly_num self = Inr \<lceil>y\<rceil>" using fin by (rule anomaly_num_Finite)
    have m0: "0 \<le> \<lceil>y\<rceil>" using y0 by simp
    from predict_ones [OF score spec num m0] fin y0 show ?thesis by blast
  qed
qed

lemma times_float_overflow: "times_float 4 (Finite (2 ^ 1023)) = PosInf"
proof -
  have "real 4 * 2 ^ 1023 = 4 * 2 ^ 1023" by simp
  then show ?thesis by (simp only: times_float.simps round64_overflow)
qed

theorem get_anomaly_indices_any_contamination_witness:
  "(\<exists>idx p. get_anomaly_indices toy_library (example_4x2\<lparr>contamination := Finite 3\<rparr>) 0 =
        Inr idx \<and>
      length idx = 4 \<and> distinct idx \<and> set idx = {0, 1, 2, 3} \<and>
      predict toy_library (example_4x2\<lparr>contamination := Finite 3\<rparr>) 0 = Inr p \<and>
      count_list p 1 = 4) \<and>
   predict toy_library (example_4x2\<lparr>contamination := PosInf\<rparr>) 0 = Inl OverflowError"
proof
  let ?self = "example_4x2\<lparr>contamination := Finite 3\<rparr>"
  from toy_score_4x2 obtain v
    where "get_anomaly_score toy_library example_4x2 0 = Inr (Vector [v, v, v, v])" ..
  then have sc: "get_anomaly_score toy_library ?self 0 = Inr (Vector [v, v, v, v])"
    by (simp only: get_anomaly_score_contamination)
  have nonneg: "(\<exists>c. contamination ?self = Finite c \<and> 0 \<le> c) \<or> contamination ?self = PosInf"
    by simp
  have prod: "times_float (n_samples ?self) (contamination ?self) = Finite 12"
    by (simp add: example_4x2_facts round64_12)
  from get_anomaly_indices_any_contamination [OF sc toy_argsort nonneg] prod
  obtain idx p where idx: "get_anomaly_indices toy_library ?self 0 = Inr idx"
    and len: "length idx = 4" and d: "distinct idx" and rg: "\<forall>i\<in>set idx. i < 4"
    and p: "predict toy_library ?self 0 = Inr p" and ones: "count_list p 1 = 4"
    by (auto simp: example_4x2_facts)
  from rg have sub: "set idx \<subseteq> {0, 1, 2, 3}" by auto
  from d len have "card (set idx) = 4" by (simp add: distinct_card)
  with sub have "set idx = {0, 1, 2, 3}" by (intro card_subset_eq) simp_all
  with idx len d p ones
  show "\<exists>idx p. get_anomaly_indices toy_library ?self 0 = Inr idx \<and>
      length idx = 4 \<and> distinct idx \<and> set idx = {0, 1, 2, 3} \<and>
      predict toy_library ?self 0 = Inr p \<and> count_list p 1 = 4"
    by blast
next
  let ?self = "example_4x2\<lparr>contamination := PosInf\<rparr>"
  from toy_score_4x2 obtain v
    where "get_anomaly_score toy_library example_4x2 0 = Inr (Vector [v, v, v, v])" ..
  then have sc: "get_anomaly_score toy_library ?self 0 = Inr (Vector [v, v, v, v])"
    by (simp only: get_anomaly_score_contamination)
  have nonneg: "(\<exists>c. contamination ?self = Finite c \<and> 0 \<le> c) \<or> contamination ?self = PosInf"
    by simp
  have prod: "times_float (n_samples ?self) (contamination ?self) = PosInf"
    by (simp add: example_4x2_facts)
  from get_anomaly_indices_any_contamination [OF sc toy_argsort nonneg] prod
  show "predict toy_library ?self 0 = Inl OverflowError" by auto
qed

text \<open>
  The claim C10 as stated fails. An error is raised when the product overflows: with
  four rows and the contamination \<open>2 ^ 1023\<close>, and with the contamination \<open>+inf\<close>, the
  product is \<open>+inf\<close> and \<open>int\<close> raises \<open>OverflowError\<close>. And the number of indices is the
  ceiling of the rounded product: with five rows and the contamination \<open>0.2\<close> one index
  is returned, where the ceiling of five times the float64 value of \<open>0.2\<close> is 2; with 25
  rows and the contamination \<open>0.28\<close> eight indices are returned, where \<open>\<lceil>25 * 0.28\<rceil>\<close>
  is 7.
\<close>

theorem get_anomaly_indices_any_contamination_counterexample:
  "get_anomaly_indices toy_library (example_4x2\<lparr>contamination := Finite (2 ^ 1023)\<rparr>) 0 =
     Inl OverflowError \<and>
   predict toy_library (example_4x2\<lparr>contamination := Finite (2 ^ 1023)\<rparr>) 0 =
     Inl OverflowError \<and>
   get_anomaly_indices toy_library (example_4x2\<lparr>contamination := PosInf\<rparr>) 0 =
     Inl OverflowError \<and>
   contamination example_5x2 = round64 (1 / 5) \<and>
   (\<exists>idx. get_anomaly_indices toy_library example_5x2 0 = Inr idx \<and> length idx = 1) \<and>
   min \<lceil>real (n_samples example_5x2) * (3602879701896397 / 18014398509481984)\<rceil>
       (int (n_samples example_5x2)) = 2 \<and>
   contamination example_25x2 = round64 (7 / 25) \<and>
   (\<exists>idx. get_anomaly_indices toy_library example_25x2 0 = Inr idx \<and> length idx = 8) \<and>
   min \<lceil>real (n_samples example_25x2) * (7 / 25)\<rceil> (int (n_samples example_25x2)) = 7"
proof (intro conjI)
  from toy_score_4x2 obtain v
    where sc: "get_anomaly_score toy_library example_4x2 0 = Inr (Vector [v, v, v, v])" ..
  have sc': "get_anomaly_score toy_library (example_4x2\<lparr>contamination := c\<rparr>) 0 =
      Inr (Vector [v, v, v, v])" for c
    using sc by (simp only: get_anomaly_score_contamination)
  have big: "anomaly_num (example_4x2\<lparr>contamination := Finite (2 ^ 1023)\<rparr>) = Inl OverflowError"
    unfolding anomaly_num_contamination example_4x2_facts times_float_overflow by simp
  have inf: "anomaly_num (example_4x2\<lparr>contamination := PosInf\<rparr>) = Inl OverflowError"
    unfolding anomaly_num_contamination example_4x2_facts by simp
  from get_anomaly_indices_raises [OF sc' big]
  show idx: "get_anomaly_indices toy_library (example_4x2\<lparr>contamination := Finite (2 ^ 1023)\<rparr>) 0 =
     Inl OverflowError" .
  from predict_raises [OF idx]
  show "predict toy_library (example_4x2\<lparr>contamination := Finite (2 ^ 1023)\<rparr>) 0 =
     Inl OverflowError" .
  from get_anomaly_indices_raises [OF sc' inf]
  show "get_anomaly_indices toy_library (example_4x2\<lparr>contamination := PosInf\<rparr>) 0 =
     Inl OverflowError" .
  show "contamination example_5x2 = round64 (1 / 5)"
    by (simp add: example_5x2_def round64_fifth)
  show "contamination example_25x2 = round64 (7 / 25)"
    by (simp add: example_25x2_def round64_7_25)
  show "min \<lceil>real (n_samples example_5x2) * (3602879701896397 / 18014398509481984)\<rceil>
       (int (n_samples example_5x2)) = 2"
    by (simp add: example_5x2_def)
  show "min \<lceil>real (n_samples example_25x2) * (7 / 25)\<rceil> (int (n_samples example_25x2)) = 7"
    by (simp add: example_25x2_def)
  from toy_score_5x2 obtain s
    where s: "get_anomaly_score toy_library example_5x2 0 = Inr (Vector s)" ..
  from predict_ones [OF s toy_argsort example_products(3)]
  show "\<exists>idx. get_anomaly_indices toy_library example_5x2 0 = Inr idx \<and> length idx = 1"
    by (auto simp: example_5x2_def)
  from toy_score_25x2 obtain s'
    where s': "get_anomaly_score toy_library example_25x2 0 = Inr (Vector s')" ..
  from predict_ones [OF s' toy_argsort example_products(4)]
  show "\<exists>idx. get_anomaly_indices toy_library example_25x2 0 = Inr idx \<and> length idx = 8"
    by (auto simp: example_25x2_def)
qed

text \<open>
  C5, as the code has it. When the float64 product \<open>y\<close> of the number of rows and the
  contamination is finite, \<open>get_anomaly_indices\<close> returns a prefix of \<open>np.argsort\<close> of
  the negated scores, of length \<open>\<lceil>y\<rceil>\<close> when that is not negative. Along the returned
  indices the scores descend, and every selected row scores at least as high as every
  row left out. The order of rows with equal scores is the order \<open>np.argsort\<close> gives
  them: when that sort is stable, the lower index comes first.
\<close>

theorem get_anomaly_indices_descending:
  assumes score: "get_anomaly_score lib self rng = Inr (Vector s)"
    and spec: "argsort_spec (argsort lib) (map uminus s)"
    and fin: "times_float (n_samples self) (contamination self) = Finite y"
  shows "\<exists>idx k. get_anomaly_indices lib self rng = Inr idx \<and>
      idx = take k (argsort lib (map uminus s)) \<and>
      (0 \<le> \<lceil>y\<rceil> \<longrightarrow> k = nat \<lceil>y\<rceil>) \<and>
      (\<lceil>y\<rceil> < 0 \<longrightarrow> k = n_samples self - nat (- \<lceil>y\<rceil>)) \<and>
      (\<forall>a b. a < b \<and> b < length idx \<longrightarrow> s ! (idx ! b) \<le> s ! (idx ! a)) \<and>
      (\<forall>i\<in>set idx. \<forall>j<n_samples self. j \<notin> set idx \<longrightarrow> s ! j \<le> s ! i) \<and>
      (argsort lib (map uminus s) = stable_argsort (map uminus s) \<longrightarrow>
         (\<forall>a b. a < b \<and> b < length idx \<and> s ! (idx ! a) = s ! (idx ! b) \<longrightarrow>
                idx ! a < idx ! b))"
proof -
  let ?n = "n_samples self"
  let ?m = "\<lceil>y\<rceil>"
  let ?pi = "argsort lib (map uminus s)"
  define k where "k = (if 0 \<le> ?m then nat ?m else length ?pi - nat (- ?m))"
  define idx where "idx = take k ?pi"
  have n: "length s = ?n" using score by (rule get_anomaly_score_Vector_length)
  have lpi: "length ?pi = length s" using argsort_spec_perm(3) [OF spec] by simp
  have ret: "get_anomaly_indices lib self rng = Inr idx"
    using get_anomaly_indices_Inr [OF score anomaly_num_Finite [OF fin]]
    by (simp add: slice_to_prefix idx_def k_def)
  have kc: "k = nat ?m" if "0 \<le> ?m"
    using that by (simp add: k_def)
  have kn: "k = ?n - nat (- ?m)" if "?m < 0"
    using that lpi n by (simp add: k_def)
  have nth: "idx ! a = ?pi ! a" if "a < length idx" for a
    using that by (simp add: idx_def)
  have lidx: "length idx \<le> length s" using lpi by (simp add: idx_def)
  have mem: "?pi ! c < length s" if "c < length s" for c
  proof -
    from that lpi have "?pi ! c \<in> set ?pi" by simp
    with argsort_spec_perm(2) [OF spec] show ?thesis by simp
  qed
  have desc: "s ! (idx ! b) \<le> s ! (idx ! a)" if ab: "a < b" and b: "b < length idx" for a b
  proof -
    from b lidx have bs: "b < length s" by (rule less_le_trans)
    from ab b have a: "a < length idx" by (rule less_trans)
    from argsort_descending [OF spec ab bs] show ?thesis
      by (simp only: nth [OF a] nth [OF b])
  qed
  have top: "s ! j \<le> s ! i" if i: "i \<in> set idx" and j: "j < ?n" and out: "j \<notin> set idx"
    for i j
  proof -
    from i obtain a where a: "a < length idx" and ia: "idx ! a = i"
      by (auto simp: in_set_conv_nth)
    from j n argsort_spec_perm(2) [OF spec] have "j \<in> set ?pi" by simp
    then obtain b where b: "b < length ?pi" and jb: "?pi ! b = j"
      by (auto simp: in_set_conv_nth)
    have "\<not> b < length idx"
    proof
      assume bl: "b < length idx"
      then have "idx ! b \<in> set idx" by (rule nth_mem)
      with nth [OF bl] jb out show False by simp
    qed
    with a have ab: "a < b" by simp
    from b lpi have "b < length s" by simp
    from argsort_descending [OF spec ab this] jb nth [OF a] ia show ?thesis by simp
  qed
  have ties: "idx ! a < idx ! b"
    if st: "?pi = stable_argsort (map uminus s)" and ab: "a < b" and b: "b < length idx"
      and eq: "s ! (idx ! a) = s ! (idx ! b)" for a b
  proof -
    let ?xs = "map uminus s"
    from b lidx have bs: "b < length s" by (rule less_le_trans)
    then have bl: "b < length ?xs" by simp
    from ab bs have as: "a < length s" by (rule less_trans)
    from ab b have a: "a < length idx" by (rule less_trans)
    from eq have "s ! (?pi ! a) = s ! (?pi ! b)" by (simp only: nth [OF a] nth [OF b])
    with mem [OF as] mem [OF bs] have "?xs ! (?pi ! a) = ?xs ! (?pi ! b)" by simp
    then have "?xs ! (stable_argsort ?xs ! a) = ?xs ! (stable_argsort ?xs ! b)"
      by (simp only: st [symmetric])
    from stable_argsort_ties [OF ab bl this] have "?pi ! a < ?pi ! b"
      by (simp only: st [symmetric])
    then show ?thesis by (simp only: nth [OF a] nth [OF b])
  qed
  show ?thesis
  proof (intro exI [of _ idx] exI [of _ k] conjI)
    show "get_anomaly_indices lib self rng = Inr idx" by (rule ret)
    show "idx = take k ?pi" by (rule idx_def)
    show "0 \<le> ?m \<longrightarrow> k = nat ?m" using kc by blast
    show "?m < 0 \<longrightarrow> k = ?n - nat (- ?m)" using kn by blast
    show "\<forall>a b. a < b \<and> b < length idx \<longrightarrow> s ! (idx ! b) \<le> s ! (idx ! a)"
      using desc by blast
    show "\<forall>i\<in>set idx. \<forall>j<?n. j \<notin> set idx \<longrightarrow> s ! j \<le> s ! i"
      using top by blast
    show "?pi = stable_argsort (map uminus s) \<longrightarrow>
        (\<forall>a b. a < b \<and> b < length idx \<and> s ! (idx ! a) = s ! (idx ! b) \<longrightarrow>
               idx ! a < idx ! b)"
      using ties by blast
  qed
qed

theorem get_anomaly_indices_descending_witness:
  "get_anomaly_indices toy_library (example_4x2\<lparr>contamination := Finite (1 / 2)\<rparr>) 0 =
     Inr [0, 1]"
proof -
  let ?self = "example_4x2\<lparr>contamination := Finite (1 / 2)\<rparr>"
  from toy_score_4x2 obtain v
    where "get_anomaly_score toy_library example_4x2 0 = Inr (Vector [v, v, v, v])" ..
  then have sc: "get_anomaly_score toy_library ?self 0 = Inr (Vector [v, v, v, v])"
    by (simp only: get_anomaly_score_contamination)
  have pi: "argsort toy_library (map uminus [v, v, v, v]) = [0, 1, 2, 3]"
    by (simp add: toy_library_def stable_argsort_const4)
  have prod: "times_float (n_samples ?self) (contamination ?self) = Finite 2"
    by (simp add: example_4x2_facts round64_2)
  from get_anomaly_indices_descending [OF sc toy_argsort prod]
  obtain idx k where idx: "get_anomaly_indices toy_library ?self 0 = Inr idx"
    and take: "idx = take k (argsort toy_library (map uminus [v, v, v, v]))"
    and k: "0 \<le> \<lceil>2::real\<rceil> \<longrightarrow> k = nat \<lceil>2::real\<rceil>"
    by blast
  from k have "k = 2" by simp
  with take pi have "idx = [0, 1]" by (simp add: numeral_2_eq_2)
  with idx show ?thesis by simp
qed

text \<open>
  The claim C5 as stated fails: the code calls \<open>np.argsort\<close> with its default sorting
  kind, which is not stable. On 32 rows of equal score NumPy's sort partitions the
  indices once and swaps the pairs of positions \<open>(1, 29), (2, 28), \<dots>, (14, 16)\<close>, so
  with contamination \<open>1/2\<close> the sixteen rows returned are row 0 and the rows 29 down to
  15, where a stable descending sort selects the rows 0 to 15.
\<close>

theorem get_anomaly_indices_stable_counterexample:
  "\<exists>v. get_anomaly_score (toy_library\<lparr>argsort := numpy_argsort\<rparr>) example_32x2 0 =
         Inr (Vector (replicate 32 v)) \<and>
       argsort_spec numpy_argsort (map uminus (replicate 32 v)) \<and>
       numpy_argsort (map uminus (replicate 32 v)) =
         [0, 29, 28, 27, 26, 25, 24, 23, 22, 21, 20, 19, 18, 17, 16, 15, 14, 13, 12, 11,
          10, 9, 8, 7, 6, 5, 4, 3, 2, 1, 30, 31] \<and>
       get_anomaly_indices (toy_library\<lparr>argsort := numpy_argsort\<rparr>) example_32x2 0 =
         Inr [0, 29, 28, 27, 26, 25, 24, 23, 22, 21, 20, 19, 18, 17, 16, 15] \<and>
       take 16 (stable_argsort (map uminus (replicate 32 v))) =
         [0, 1, 2, 3, 4, 5, 6, 7, 8, 9, 10, 11, 12, 13, 14, 15]"
proof -
  let ?lib = "toy_library\<lparr>argsort := numpy_argsort\<rparr>"
  have same: "get_anomaly_score ?lib example_32x2 0 =
      get_anomaly_score toy_library example_32x2 0"
    by (rule get_anomaly_score_argsort)
  from toy_score_32x2 obtain v
    where "get_anomaly_score toy_library example_32x2 0 = Inr (Vector (replicate 32 v))" ..
  with same have sc: "get_anomaly_score ?lib example_32x2 0 = Inr (Vector (replicate 32 v))"
    by simp
  have neg: "map uminus (replicate 32 v) = replicate 32 (- v)" by simp
  have spec: "argsort_spec numpy_argsort (map uminus (replicate 32 v))"
    unfolding neg by (rule argsort_spec_numpy_argsort_ties)
  have pi: "numpy_argsort (map uminus (replicate 32 v)) =
      [0, 29, 28, 27, 26, 25, 24, 23, 22, 21, 20, 19, 18, 17, 16, 15, 14, 13, 12, 11,
          10, 9, 8, 7, 6, 5, 4, 3, 2, 1, 30, 31]"
    unfolding neg by (rule numpy_argsort_ties)
  have idx: "get_anomaly_indices ?lib example_32x2 0 =
      Inr [0, 29, 28, 27, 26, 25, 24, 23, 22, 21, 20, 19, 18, 17, 16, 15]"
    using get_anomaly_indices_Inr [OF sc example_products(5)]
    by (simp add: numpy_argsort_ties slice_to_def)
  have st: "take 16 (stable_argsort (map uminus (replicate 32 v))) =
      [0, 1, 2, 3, 4, 5, 6, 7, 8, 9, 10, 11, 12, 13, 14, 15]"
    unfolding neg stable_argsort_ties_32 by (simp add: upt_rec)
  from sc spec pi idx st show ?thesis by blast
qed

section \<open>Configuration errors\<close>

lemma get_anomaly_indices_score_raises:
  assumes "get_anomaly_score lib self rng = Inl e"
  shows "get_anomaly_indices lib self rng = Inl e"
  using assms by (simp add: get_anomaly_indices_def)

text \<open>
  C4, as the code has it. No value of the contamination is rejected, neither in
  \<open>__init__\<close> nor before the decompositions. \<open>__init__\<close> stores the value as it is
  given and fails only when the standardization fails. The scores do not depend on the
  contamination, and an error of the score stage is the error of \<open>get_anomaly_indices\<close>
  and \<open>predict\<close>. The contamination is first read after the scores are computed and
  sorted. When its float64 product \<open>y\<close> with the number of rows is finite, nothing is
  raised: for \<open>\<lceil>y\<rceil> \<ge> 0\<close> the first \<open>\<lceil>y\<rceil>\<close> indices of the sorted order are returned,
  all of them when there are fewer, and for \<open>\<lceil>y\<rceil> < 0\<close> all but the last \<open>- \<lceil>y\<rceil>\<close>;
  \<open>predict\<close> returns a vector with one entry per row. When the product is an infinity,
  \<open>int\<close> raises \<open>OverflowError\<close>, and when it is NaN, \<open>ValueError\<close>.
\<close>

theorem contamination_unchecked:
  "(\<forall>e. init lib m c k g rs = Inl e \<longleftrightarrow> StandardScaler_fit_transform lib m = Inl e) \<and>
   (\<forall>M. StandardScaler_fit_transform lib m = Inr M \<longrightarrow>
        init lib m c k g rs =
          Inr \<lparr>matrix = M, contamination = c, kernel = k, gamma = g, random_state = rs\<rparr>) \<and>
   get_anomaly_score lib (self\<lparr>contamination := c\<rparr>) rng = get_anomaly_score lib self rng \<and>
   (\<forall>e. get_anomaly_score lib self rng = Inl e \<longrightarrow>
        get_anomaly_indices lib (self\<lparr>contamination := c\<rparr>) rng = Inl e \<and>
        predict lib (self\<lparr>contamination := c\<rparr>) rng = Inl e) \<and>
   (\<forall>sc. get_anomaly_score lib self rng = Inr sc \<longrightarrow>
      (case times_float (n_samples self) c of
         Finite y \<Rightarrow>
           get_anomaly_indices lib (self\<lparr>contamination := c\<rparr>) rng =
             Inr (if 0 \<le> \<lceil>y\<rceil>
                  then take (nat \<lceil>y\<rceil>) (argsort lib (map uminus (as_1d sc)))
                  else take (length (argsort lib (map uminus (as_1d sc))) - nat (- \<lceil>y\<rceil>))
                         (argsort lib (map uminus (as_1d sc)))) \<and>
           (\<exists>p. predict lib (self\<lparr>contamination := c\<rparr>) rng = Inr p \<and>
                length p = n_samples self)
       | PosInf \<Rightarrow>
           get_anomaly_indices lib (self\<lparr>contamination := c\<rparr>) rng = Inl OverflowError \<and>
           predict lib (self\<lparr>contamination := c\<rparr>) rng = Inl OverflowError
       | NegInf \<Rightarrow>
           get_anomaly_indices lib (self\<lparr>contamination := c\<rparr>) rng = Inl OverflowError \<and>
           predict lib (self\<lparr>contamination := c\<rparr>) rng = Inl OverflowError
       | NaN \<Rightarrow>
           get_anomaly_indices lib (self\<lparr>contamination := c\<rparr>) rng = Inl ValueError \<and>
           predict lib (self\<lparr>contamination := c\<rparr>) rng = Inl ValueError))"
proof (intro conjI allI impI)
  fix e
  show "init lib m c k g rs = Inl e \<longleftrightarrow> StandardScaler_fit_transform lib m = Inl e"
    by (cases "StandardScaler_fit_transform lib m") (simp_all add: init_def)
next
  fix M
  assume "StandardScaler_fit_transform lib m = Inr M"
  then show "init lib m c k g rs =
      Inr \<lparr>matrix = M, contamination = c, kernel = k, gamma = g, random_state = rs\<rparr>"
    by (simp add: init_def)
next
  show "get_anomaly_score lib (self\<lparr>contamination := c\<rparr>) rng = get_anomaly_score lib self rng"
    by (rule get_anomaly_score_contamination)
next
  fix e
  assume "get_anomaly_score lib self rng = Inl e"
  then have "get_anomaly_score lib (self\<lparr>contamination := c\<rparr>) rng = Inl e"
    by (simp only: get_anomaly_score_contamination)
  then show idx: "get_anomaly_indices lib (self\<lparr>contamination := c\<rparr>) rng = Inl e"
    by (rule get_anomaly_indices_score_raises)
  then show "predict lib (self\<lparr>contamination := c\<rparr>) rng = Inl e"
    by (rule predict_raises)
next
  fix sc
  let ?self = "self\<lparr>contamination := c\<rparr>"
  let ?pi = "argsort lib (map uminus (as_1d sc))"
  assume "get_anomaly_score lib self rng = Inr sc"
  then have sc: "get_anomaly_score lib ?self rng = Inr sc"
    by (simp only: get_anomaly_score_contamination)
  have num: "anomaly_num ?self = int_ceil (times_float (n_samples self) c)"
    by (rule anomaly_num_contamination)
  show "case times_float (n_samples self) c of
         Finite y \<Rightarrow>
           get_anomaly_indices lib ?self rng =
             Inr (if 0 \<le> \<lceil>y\<rceil> then take (nat \<lceil>y\<rceil>) ?pi
                  else take (length ?pi - nat (- \<lceil>y\<rceil>)) ?pi) \<and>
           (\<exists>p. predict lib ?self rng = Inr p \<and> length p = n_samples self)
       | PosInf \<Rightarrow>
           get_anomaly_indices lib ?self rng = Inl OverflowError \<and>
           predict lib ?self rng = Inl OverflowError
       | NegInf \<Rightarrow>
           get_anomaly_indices lib ?self rng = Inl OverflowError \<and>
           predict lib ?self rng = Inl OverflowError
       | NaN \<Rightarrow>
           get_anomaly_indices lib ?self rng = Inl ValueError \<and>
           predict lib ?self rng = Inl ValueError"
  proof (cases "times_float (n_samples self) c")
    case (Finite y)
    with num have "anomaly_num ?self = Inr \<lceil>y\<rceil>" by simp
    from get_anomaly_indices_Inr [OF sc this]
    have idx: "get_anomaly_indices lib ?self rng = Inr (slice_to ?pi \<lceil>y\<rceil>)" .
    from predict_Inr [OF idx] have "\<exists>p. predict lib ?self rng = Inr p \<and> length p = n_samples self"
      by simp
    with idx Finite show ?thesis by (simp add: slice_to_def)
  next
    case PosInf
    with num have "anomaly_num ?self = Inl OverflowError" by simp
    from get_anomaly_indices_raises [OF sc this]
    have idx: "get_anomaly_indices lib ?self rng = Inl OverflowError" .
    from predict_raises [OF idx] idx PosInf show ?thesis by simp
  next
    case NegInf
    with num have "anomaly_num ?self = Inl OverflowError" by simp
    from get_anomaly_indices_raises [OF sc this]
    have idx: "get_anomaly_indices lib ?self rng = Inl OverflowError" .
    from predict_raises [OF idx] idx NegInf show ?thesis by simp
  next
    case NaN
    with num have "anomaly_num ?self = Inl ValueError" by simp
    from get_anomaly_indices_raises [OF sc this]
    have idx: "get_anomaly_indices lib ?self rng = Inl ValueError" .
    from predict_raises [OF idx] idx NaN show ?thesis by simp
  qed
qed

theorem contamination_unchecked_witness:
  "init toy_library [[1, 1], [- 1, - 1], [1, - 1], [- 1, 1]] (Finite (3 / 4)) ''rbf'' None 2018 =
     Inr (example_4x2\<lparr>contamination := Finite (3 / 4)\<rparr>) \<and>
   (\<exists>v. get_anomaly_indices toy_library (example_4x2\<lparr>contamination := Finite (3 / 4)\<rparr>) 0 =
          Inr (take 3 (argsort toy_library [- v, - v, - v, - v]))) \<and>
   (\<exists>p. predict toy_library (example_4x2\<lparr>contamination := Finite (3 / 4)\<rparr>) 0 = Inr p \<and>
        length p = 4)"
proof -
  let ?M = "[[1, 1], [- 1, - 1], [1, - 1], [- 1, 1 :: real]]"
  note inst = contamination_unchecked [of toy_library ?M "Finite (3 / 4)" "''rbf''" None 2018
      example_4x2 0]
  have scale: "StandardScaler_fit_transform toy_library ?M = Inr ?M"
    by (simp add: toy_library_def)
  from inst [THEN conjunct2, THEN conjunct1, rule_format, OF scale]
  have built: "init toy_library ?M (Finite (3 / 4)) ''rbf'' None 2018 =
     Inr (example_4x2\<lparr>contamination := Finite (3 / 4)\<rparr>)"
    by (simp add: example_4x2_def)
  from toy_score_4x2 obtain v
    where sc: "get_anomaly_score toy_library example_4x2 0 = Inr (Vector [v, v, v, v])" ..
  have prod: "times_float (n_samples example_4x2) (Finite (3 / 4)) = Finite 3"
    by (simp add: example_4x2_facts round64_3)
  from inst [THEN conjunct2, THEN conjunct2, THEN conjunct2, THEN conjunct2, rule_format,
      OF sc]
  have "get_anomaly_indices toy_library (example_4x2\<lparr>contamination := Finite (3 / 4)\<rparr>) 0 =
          Inr (take 3 (argsort toy_library [- v, - v, - v, - v])) \<and>
        (\<exists>p. predict toy_library (example_4x2\<lparr>contamination := Finite (3 / 4)\<rparr>) 0 = Inr p \<and>
             length p = 4)"
    unfolding prod by (simp add: example_4x2_facts)
  with built show ?thesis by blast
qed

text \<open>
  The claim C4 as stated fails: with contamination \<open>3/4\<close> the object is built and
  \<open>predict\<close> flags three of the four rows; with contamination \<open>-1/2\<close> the slice
  \<open>indices_desc[:-2]\<close> drops the last two indices and \<open>predict\<close> flags two rows. No
  error is raised for either value.
\<close>

theorem contamination_out_of_range_counterexample:
  "init toy_library [[1, 1], [- 1, - 1], [1, - 1], [- 1, 1]] (Finite (3 / 4)) ''rbf'' None 2018 =
     Inr (example_4x2\<lparr>contamination := Finite (3 / 4)\<rparr>) \<and>
   get_anomaly_indices toy_library (example_4x2\<lparr>contamination := Finite (3 / 4)\<rparr>) 0 =
     Inr [0, 1, 2] \<and>
   predict toy_library (example_4x2\<lparr>contamination := Finite (3 / 4)\<rparr>) 0 = Inr [1, 1, 1, 0] \<and>
   init toy_library [[1, 1], [- 1, - 1], [1, - 1], [- 1, 1]] (Finite (- (1 / 2))) ''rbf'' None
     2018 = Inr (example_4x2\<lparr>contamination := Finite (- (1 / 2))\<rparr>) \<and>
   get_anomaly_indices toy_library (example_4x2\<lparr>contamination := Finite (- (1 / 2))\<rparr>) 0 =
     Inr [0, 1] \<and>
   predict toy_library (example_4x2\<lparr>contamination := Finite (- (1 / 2))\<rparr>) 0 =
     Inr [1, 1, 0, 0]"
proof -
  from toy_score_4x2 obtain v
    where sc: "get_anomaly_score toy_library example_4x2 0 = Inr (Vector [v, v, v, v])" ..
  have sc': "get_anomaly_score toy_library (example_4x2\<lparr>contamination := c\<rparr>) 0 =
      Inr (Vector [v, v, v, v])" for c
    using sc by (simp only: get_anomaly_score_contamination)
  have pi: "argsort toy_library [- v, - v, - v, - v] = [0, 1, 2, 3]"
    by (simp add: toy_library_def stable_argsort_const4)
  have num_hi: "anomaly_num (example_4x2\<lparr>contamination := Finite (3 / 4)\<rparr>) = Inr 3"
    by (simp add: anomaly_num_contamination example_4x2_facts round64_3)
  have num_lo: "anomaly_num (example_4x2\<lparr>contamination := Finite (- (1 / 2))\<rparr>) = Inr (- 2)"
    by (simp add: anomaly_num_contamination example_4x2_facts round64_minus_2)
  have idx_hi: "get_anomaly_indices toy_library (example_4x2\<lparr>contamination := Finite (3 / 4)\<rparr>) 0 =
      Inr [0, 1, 2]"
    using get_anomaly_indices_Inr [OF sc' num_hi] by (simp add: pi slice_to_def)
  have idx_lo: "get_anomaly_indices toy_library
      (example_4x2\<lparr>contamination := Finite (- (1 / 2))\<rparr>) 0 = Inr [0, 1]"
    using get_anomaly_indices_Inr [OF sc' num_lo] by (simp add: pi slice_to_def)
  have hi: "predict toy_library (example_4x2\<lparr>contamination := Finite (3 / 4)\<rparr>) 0 =
      Inr [1, 1, 1, 0]"
    using predict_Inr [OF idx_hi] by (simp add: example_4x2_facts upt_rec)
  have lo: "predict toy_library (example_4x2\<lparr>contamination := Finite (- (1 / 2))\<rparr>) 0 =
      Inr [1, 1, 0, 0]"
    using predict_Inr [OF idx_lo] by (simp add: example_4x2_facts upt_rec)
  have "init toy_library [[1, 1], [- 1, - 1], [1, - 1], [- 1, 1]] c ''rbf'' None 2018 =
     Inr (example_4x2\<lparr>contamination := c\<rparr>)" for c
    by (simp add: init_def toy_library_def example_4x2_def)
  with hi lo idx_hi idx_lo show ?thesis by simp
qed

section \<open>Two runs on one configuration\<close>

lemma reconstruct_matrix_two_runs:
  "reconstruct_matrix lib self rng1 = reconstruct_matrix lib self rng2 \<or>
   (reconstruct_matrix lib self rng1 = Inl AssertionError \<and>
      (\<exists>Rs. reconstruct_matrix lib self rng2 = Inr Rs)) \<or>
   ((\<exists>Rs. reconstruct_matrix lib self rng1 = Inr Rs) \<and>
      reconstruct_matrix lib self rng2 = Inl AssertionError)"
proof (cases "collect (reconstruct lib self) [1..<n_features self + 1]")
  case (Inl e)
  then show ?thesis by (simp add: reconstruct_matrix_def)
next
  case (Inr Qs)
  show ?thesis
  proof (cases "n_features self < 2")
    case True
    with Inr show ?thesis by (simp add: reconstruct_matrix_def random_choice2_def)
  next
    case False
    with Inr show ?thesis
      by (simp add: reconstruct_matrix_def random_choice2_def Let_def)
  qed
qed

lemma get_anomaly_score_two_runs:
  "get_anomaly_score lib self rng1 = get_anomaly_score lib self rng2 \<or>
   (get_anomaly_score lib self rng1 = Inl AssertionError \<and>
      (\<exists>s. get_anomaly_score lib self rng2 = Inr s)) \<or>
   ((\<exists>s. get_anomaly_score lib self rng1 = Inr s) \<and>
      get_anomaly_score lib self rng2 = Inl AssertionError)"
proof (cases "get_ev_ratio lib self")
  case (Inl e)
  then show ?thesis by (simp add: get_anomaly_score_def)
next
  case (Inr ev)
  from reconstruct_matrix_two_runs [of lib self rng1 rng2] show ?thesis
  proof (elim disjE conjE exE)
    assume "reconstruct_matrix lib self rng1 = reconstruct_matrix lib self rng2"
    then show ?thesis by (simp add: get_anomaly_score_of_sweep [OF Inr])
  next
    fix Rs
    assume "reconstruct_matrix lib self rng1 = Inl AssertionError"
      and "reconstruct_matrix lib self rng2 = Inr Rs"
    then show ?thesis by (simp add: get_anomaly_score_of_sweep [OF Inr])
  next
    fix Rs
    assume "reconstruct_matrix lib self rng1 = Inr Rs"
      and "reconstruct_matrix lib self rng2 = Inl AssertionError"
    then show ?thesis by (simp add: get_anomaly_score_of_sweep [OF Inr])
  qed
qed

lemma predict_of_score:
  "predict lib self rng =
     (case get_anomaly_score lib self rng of
        Inl e \<Rightarrow> Inl e
      | Inr sc \<Rightarrow>
          (case anomaly_num self of
             Inl e \<Rightarrow> Inl e
           | Inr m \<Rightarrow>
               Inr (map (\<lambda>i. if i \<in> set (slice_to (argsort lib (map uminus (as_1d sc))) m)
                              then 1 else 0)
                      [0..<n_samples self])))"
  by (cases "get_anomaly_score lib self rng"; cases "anomaly_num self")
    (simp_all add: predict_def get_anomaly_indices_def)

lemma predict_two_runs:
  assumes "anomaly_num self = Inr m"
  shows "predict lib self rng1 = predict lib self rng2 \<or>
   (predict lib self rng1 = Inl AssertionError \<and> (\<exists>p. predict lib self rng2 = Inr p)) \<or>
   ((\<exists>p. predict lib self rng1 = Inr p) \<and> predict lib self rng2 = Inl AssertionError)"
  using get_anomaly_score_two_runs [of lib self rng1 rng2]
proof (elim disjE conjE exE)
  assume "get_anomaly_score lib self rng1 = get_anomaly_score lib self rng2"
  then show ?thesis by (simp add: predict_of_score)
next
  fix s
  assume "get_anomaly_score lib self rng1 = Inl AssertionError"
    and "get_anomaly_score lib self rng2 = Inr s"
  then show ?thesis by (simp add: predict_of_score assms)
next
  fix s
  assume "get_anomaly_score lib self rng1 = Inr s"
    and "get_anomaly_score lib self rng2 = Inl AssertionError"
  then show ?thesis by (simp add: predict_of_score assms)
qed

lemma predict_two_runs_raises:
  assumes "anomaly_num self = Inl e"
  shows "predict lib self rng1 = predict lib self rng2 \<or>
   (predict lib self rng1 = Inl AssertionError \<and> predict lib self rng2 = Inl e) \<or>
   (predict lib self rng1 = Inl e \<and> predict lib self rng2 = Inl AssertionError)"
  using get_anomaly_score_two_runs [of lib self rng1 rng2]
proof (elim disjE conjE exE)
  assume "get_anomaly_score lib self rng1 = get_anomaly_score lib self rng2"
  then show ?thesis by (simp add: predict_of_score)
next
  fix s
  assume "get_anomaly_score lib self rng1 = Inl AssertionError"
    and "get_anomaly_score lib self rng2 = Inr s"
  then show ?thesis by (simp add: predict_of_score assms)
next
  fix s
  assume "get_anomaly_score lib self rng1 = Inr s"
    and "get_anomaly_score lib self rng2 = Inl AssertionError"
  then show ?thesis by (simp add: predict_of_score assms)
qed

lemma predict_both_return:
  assumes "predict lib self rng1 = Inr p1" and "predict lib self rng2 = Inr p2"
  shows "p1 = p2"
proof -
  from assms(1) obtain s1 where s1: "get_anomaly_score lib self rng1 = Inr s1"
    by (auto simp: predict_of_score split: sum.splits)
  from assms(2) obtain s2 where s2: "get_anomaly_score lib self rng2 = Inr s2"
    by (auto simp: predict_of_score split: sum.splits)
  from get_anomaly_score_two_runs [of lib self rng1 rng2] s1 s2 have "s1 = s2" by auto
  with assms s1 s2 show ?thesis by (auto simp: predict_of_score split: sum.splits)
qed

lemma toy_sweep_4x6_other:
  "reconstruct_matrix toy_library example_4x6 1 = reconstruct_matrix toy_library example_4x6 0"
  unfolding toy_sweep_4x6
  by (simp add: reconstruct_matrix_def reconstruct_def toy_library_def toy_KernelPCA_def
      example_4x6_def shape_def random_choice2_def upt_rec Let_def scaled_def)

text \<open>
  C8, as the code has it. Two runs on the same configuration differ at most in the state
  of NumPy's global generator, which the \<open>random_state\<close> of the configuration does not
  seed. Two runs that both return give the same scores and the same predictions. Two runs
  either have the same outcome, or one returns and the other stops with the
  \<open>AssertionError\<close> of the random spot check in \<open>reconstruct_matrix\<close>; for the
  predictions this holds whenever the float64 product of the number of rows and the
  contamination is finite, as it is for every contamination in \<open>[0, 1/2]\<close>. When that
  product is an infinity or NaN, the run that gets past the spot check raises the error of
  \<open>int\<close> instead of returning a prediction.
\<close>

theorem two_runs:
  "(\<forall>s1 s2. get_anomaly_score lib self rng1 = Inr s1 \<and>
            get_anomaly_score lib self rng2 = Inr s2 \<longrightarrow> s1 = s2) \<and>
   (\<forall>p1 p2. predict lib self rng1 = Inr p1 \<and> predict lib self rng2 = Inr p2 \<longrightarrow> p1 = p2) \<and>
   (get_anomaly_score lib self rng1 = get_anomaly_score lib self rng2 \<or>
    (get_anomaly_score lib self rng1 = Inl AssertionError \<and>
       (\<exists>s. get_anomaly_score lib self rng2 = Inr s)) \<or>
    ((\<exists>s. get_anomaly_score lib self rng1 = Inr s) \<and>
       get_anomaly_score lib self rng2 = Inl AssertionError)) \<and>
   (\<forall>y. times_float (n_samples self) (contamination self) = Finite y \<longrightarrow>
      predict lib self rng1 = predict lib self rng2 \<or>
      (predict lib self rng1 = Inl AssertionError \<and> (\<exists>p. predict lib self rng2 = Inr p)) \<or>
      ((\<exists>p. predict lib self rng1 = Inr p) \<and> predict lib self rng2 = Inl AssertionError)) \<and>
   (\<forall>e. anomaly_num self = Inl e \<longrightarrow>
      predict lib self rng1 = predict lib self rng2 \<or>
      (predict lib self rng1 = Inl AssertionError \<and> predict lib self rng2 = Inl e) \<or>
      (predict lib self rng1 = Inl e \<and> predict lib self rng2 = Inl AssertionError))"
proof (intro conjI allI impI)
  fix s1 s2
  assume "get_anomaly_score lib self rng1 = Inr s1 \<and> get_anomaly_score lib self rng2 = Inr s2"
  with get_anomaly_score_two_runs [of lib self rng1 rng2] show "s1 = s2" by auto
next
  fix p1 p2
  assume "predict lib self rng1 = Inr p1 \<and> predict lib self rng2 = Inr p2"
  then show "p1 = p2" using predict_both_return by blast
next
  show "get_anomaly_score lib self rng1 = get_anomaly_score lib self rng2 \<or>
    (get_anomaly_score lib self rng1 = Inl AssertionError \<and>
       (\<exists>s. get_anomaly_score lib self rng2 = Inr s)) \<or>
    ((\<exists>s. get_anomaly_score lib self rng1 = Inr s) \<and>
       get_anomaly_score lib self rng2 = Inl AssertionError)"
    by (rule get_anomaly_score_two_runs)
next
  fix y
  assume "times_float (n_samples self) (contamination self) = Finite y"
  then have "anomaly_num self = Inr \<lceil>y\<rceil>" by (rule anomaly_num_Finite)
  then show "predict lib self rng1 = predict lib self rng2 \<or>
    (predict lib self rng1 = Inl AssertionError \<and> (\<exists>p. predict lib self rng2 = Inr p)) \<or>
    ((\<exists>p. predict lib self rng1 = Inr p) \<and> predict lib self rng2 = Inl AssertionError)"
    by (rule predict_two_runs)
next
  fix e
  assume "anomaly_num self = Inl e"
  then show "predict lib self rng1 = predict lib self rng2 \<or>
      (predict lib self rng1 = Inl AssertionError \<and> predict lib self rng2 = Inl e) \<or>
      (predict lib self rng1 = Inl e \<and> predict lib self rng2 = Inl AssertionError)"
    by (rule predict_two_runs_raises)
qed

theorem two_runs_witness:
  "(\<exists>s. get_anomaly_score toy_library example_4x6 0 = Inr s \<and>
        get_anomaly_score toy_library example_4x6 1 = Inr s) \<and>
   (\<exists>p. predict toy_library example_4x6 0 = Inr p \<and> predict toy_library example_4x6 1 = Inr p) \<and>
   (predict toy_library example_4x6 0 = predict toy_library example_4x6 4 \<or>
    (predict toy_library example_4x6 0 = Inl AssertionError \<and>
       (\<exists>p. predict toy_library example_4x6 4 = Inr p)) \<or>
    ((\<exists>p. predict toy_library example_4x6 0 = Inr p) \<and>
       predict toy_library example_4x6 4 = Inl AssertionError))"
proof -
  note inst = two_runs [of toy_library example_4x6 0 1]
  from toy_score_4x6 obtain s0 where s0: "get_anomaly_score toy_library example_4x6 0 = Inr s0"
    by blast
  from toy_sweep_4x6 toy_sweep_4x6_other obtain Rs
    where "reconstruct_matrix toy_library example_4x6 1 = Inr Rs" by simp
  from get_anomaly_score_Inr [OF toy_ev_4x6 this] obtain s
    where s: "get_anomaly_score toy_library example_4x6 1 = Inr s" by blast
  with inst s0 have eq: "s0 = s" by blast
  from s0 obtain p where p: "predict toy_library example_4x6 0 = Inr p"
    by (auto simp: predict_of_score example_products)
  from s obtain q where q: "predict toy_library example_4x6 1 = Inr q"
    by (auto simp: predict_of_score example_products)
  with inst p have "p = q" by blast
  with s0 s eq p q have first: "(\<exists>s. get_anomaly_score toy_library example_4x6 0 = Inr s \<and>
        get_anomaly_score toy_library example_4x6 1 = Inr s) \<and>
   (\<exists>p. predict toy_library example_4x6 0 = Inr p \<and> predict toy_library example_4x6 1 = Inr p)"
    by simp
  have prod: "times_float (n_samples example_4x6) (contamination example_4x6) = Finite 2"
    by (simp add: example_4x6_facts round64_2)
  from two_runs [of toy_library example_4x6 0 4, THEN conjunct2, THEN conjunct2, THEN conjunct2,
      THEN conjunct1, rule_format, OF prod] first
  show ?thesis by blast
qed

text \<open>
  The claim C8 as stated fails. On four rows of six features a fit keeps at most four
  components, so the reconstructions for \<open>k = 4, 5, 6\<close> coincide. A run whose spot check
  draws the pair \<open>(0, 1)\<close> returns scores and predictions; a run that draws \<open>(4, 5)\<close>
  raises \<open>AssertionError\<close>.
\<close>

theorem two_runs_counterexample:
  "(\<exists>s. get_anomaly_score toy_library example_4x6 0 = Inr s) \<and>
   get_anomaly_score toy_library example_4x6 4 = Inl AssertionError \<and>
   predict toy_library example_4x6 0 = Inr [1, 1, 0, 0] \<and>
   predict toy_library example_4x6 4 = Inl AssertionError"
proof -
  have bad: "get_anomaly_score toy_library example_4x6 4 = Inl AssertionError"
    unfolding get_anomaly_score_of_sweep [OF toy_ev_4x6] toy_sweep_4x6_fails by simp
  have "predict toy_library example_4x6 0 = Inr [1, 1, 0, 0]"
    unfolding predict_of_score toy_score_4x6 example_products
    by (simp add: slice_to_def toy_library_def stable_argsort_def
        example_4x6_def upt_rec)
  with bad toy_score_4x6 show ?thesis by (simp add: predict_of_score)
qed

end
